theory Spec2Isabelle
  imports Complex_Main "HOL-Library.Sublist"
begin

section \<open>Text as the program sees it\<close>

text \<open>
  The bot of \<^verbatim>\<open>src/bot.py\<close> works on Python strings, sequences of Unicode
  characters. They are modelled as \<^typ>\<open>string\<close>, the UTF-8 encoding of the Python
  string: an ASCII character is one byte, a character outside ASCII is the two to four
  bytes of its encoding, and the first byte of a character tells how many bytes it has.
\<close>

definition char_width :: "char \<Rightarrow> nat" where
  "char_width c =
     (if (of_char c :: nat) < 192 then 1
      else if (of_char c :: nat) < 224 then 2
      else if (of_char c :: nat) < 240 then 3
      else 4)"

text \<open>
  The regular expression classes \<^verbatim>\<open>\d\<close>, \<^verbatim>\<open>\w\<close> and \<^verbatim>\<open>\s\<close> of Python 3 on
  strings follow the Unicode database of the interpreter: \<^verbatim>\<open>\d\<close> is
  \<^verbatim>\<open>str.isdecimal\<close>, \<^verbatim>\<open>\w\<close> is \<^verbatim>\<open>str.isalnum\<close> or the underscore, and
  \<^verbatim>\<open>\s\<close> is \<^verbatim>\<open>str.isspace\<close>, which \<^verbatim>\<open>str.strip\<close> uses as well. A class is a
  predicate on encoded characters. On ASCII every version of the database agrees and the
  classes are written out. Outside ASCII the decimal digits and the alphanumeric
  characters differ from version to version: their tables are parameters of the model, and
  every statement below holds whatever the tables are.
\<close>

record unicode_tables =
  decimal_digit :: "string \<Rightarrow> bool"
  alphanumeric :: "string \<Rightarrow> bool"

definition ascii_digit :: "char \<Rightarrow> bool" where
  "ascii_digit c = (c \<in> set ''0123456789'')"

definition is_digit :: "unicode_tables \<Rightarrow> string \<Rightarrow> bool" where
  "is_digit U ch =
     (case ch of
        [] \<Rightarrow> False
      | [c] \<Rightarrow> ascii_digit c
      | _ \<Rightarrow> decimal_digit U ch)"

text \<open>
  White space is the same in every version the program can run on: tab, line feed,
  vertical tab, form feed, carriage return, the four separators 0x1C..0x1F and the blank,
  and outside ASCII the characters U+0085, U+00A0, U+1680, U+2000..U+200A, U+2028, U+2029,
  U+202F, U+205F and U+3000, here in their encoding.
\<close>

definition white_space :: "string list" where
  "white_space =
     [[CHR 0x09], [CHR 0x0A], [CHR 0x0B], [CHR 0x0C], [CHR 0x0D],
      [CHR 0x1C], [CHR 0x1D], [CHR 0x1E], [CHR 0x1F], [CHR 0x20],
      [CHR 0xC2, CHR 0x85], [CHR 0xC2, CHR 0xA0], [CHR 0xE1, CHR 0x9A, CHR 0x80],
      [CHR 0xE2, CHR 0x80, CHR 0x80], [CHR 0xE2, CHR 0x80, CHR 0x81],
      [CHR 0xE2, CHR 0x80, CHR 0x82], [CHR 0xE2, CHR 0x80, CHR 0x83],
      [CHR 0xE2, CHR 0x80, CHR 0x84], [CHR 0xE2, CHR 0x80, CHR 0x85],
      [CHR 0xE2, CHR 0x80, CHR 0x86], [CHR 0xE2, CHR 0x80, CHR 0x87],
      [CHR 0xE2, CHR 0x80, CHR 0x88], [CHR 0xE2, CHR 0x80, CHR 0x89],
      [CHR 0xE2, CHR 0x80, CHR 0x8A], [CHR 0xE2, CHR 0x80, CHR 0xA8],
      [CHR 0xE2, CHR 0x80, CHR 0xA9], [CHR 0xE2, CHR 0x80, CHR 0xAF],
      [CHR 0xE2, CHR 0x81, CHR 0x9F], [CHR 0xE3, CHR 0x80, CHR 0x80]]"

definition is_space :: "string \<Rightarrow> bool" where
  "is_space ch = (ch \<in> set white_space)"

text \<open>
  No white-space character is alphanumeric in any version of the database, so outside
  ASCII the table is consulted for the characters that are not white space.
\<close>

definition is_word_char :: "unicode_tables \<Rightarrow> string \<Rightarrow> bool" where
  "is_word_char U ch =
     (case ch of
        [] \<Rightarrow> False
      | [c] \<Rightarrow> c \<in> set ''0123456789ABCDEFGHIJKLMNOPQRSTUVWXYZabcdefghijklmnopqrstuvwxyz_''
      | _ \<Rightarrow> alphanumeric U ch \<and> \<not> is_space ch)"

text \<open>
  The greedy run of a class at the head of \<open>s\<close> (\<^verbatim>\<open>\d+\<close>, \<^verbatim>\<open>\s*\<close>, \<^verbatim>\<open>\w+\<close>):
  the number of bytes of the longest prefix of \<open>s\<close> made of whole characters of the class.
\<close>

function class_run :: "(string \<Rightarrow> bool) \<Rightarrow> string \<Rightarrow> nat" where
  "class_run P s =
     (if s = [] then 0
      else (let w = char_width (hd s)
            in if w \<le> length s \<and> P (take w s) then w + class_run P (drop w s) else 0))"
  by pat_completeness auto
termination
  by (relation "measure (\<lambda>(P, s). length s)") (auto simp: char_width_def)

declare class_run.simps [simp del]

text \<open>The text \<open>s\<close> is made of characters of the class, and of nothing else.\<close>

definition all_chars :: "(string \<Rightarrow> bool) \<Rightarrow> string \<Rightarrow> bool" where
  "all_chars P s = (class_run P s = length s)"

text \<open>
  The class \<^verbatim>\<open>[0-9A-Za-z_-]\<close> of the identifier patterns is spelled in the source and
  holds ASCII characters only. \<^verbatim>\<open>str.lower\<close> is modelled on the ASCII letters and
  leaves every other byte alone.
\<close>

definition is_id_char :: "char \<Rightarrow> bool" where
  "is_id_char c =
     (c \<in> set ''0123456789ABCDEFGHIJKLMNOPQRSTUVWXYZabcdefghijklmnopqrstuvwxyz_-'')"

definition lower_char :: "char \<Rightarrow> char" where
  "lower_char c =
     (case map_of (zip ''ABCDEFGHIJKLMNOPQRSTUVWXYZ'' ''abcdefghijklmnopqrstuvwxyz'') c of
        Some l \<Rightarrow> l
      | None \<Rightarrow> c)"

definition lower :: "string \<Rightarrow> string" where
  "lower s = map lower_char s"

text \<open>Python's \<^verbatim>\<open>needle in text\<close> on strings.\<close>

fun contains :: "string \<Rightarrow> string \<Rightarrow> bool" where
  "contains needle [] = (needle = [])"
| "contains needle (c # cs) = (prefix needle (c # cs) \<or> contains needle cs)"

text \<open>
  \<^verbatim>\<open>str.strip()\<close>: white space removed at both ends. At the end the longest suffix
  made of white-space characters goes.
\<close>

fun rstrip :: "string \<Rightarrow> string" where
  "rstrip [] = []"
| "rstrip (c # cs) = (if all_chars is_space (c # cs) then [] else c # rstrip cs)"

definition strip :: "string \<Rightarrow> string" where
  "strip s = rstrip (drop (class_run is_space s) s)"

text \<open>\<^verbatim>\<open>sep.join(parts)\<close>.\<close>

fun join :: "string \<Rightarrow> string list \<Rightarrow> string" where
  "join sep [] = []"
| "join sep [p] = p"
| "join sep (p # q # ps) = p @ sep @ join sep (q # ps)"

text \<open>\<^verbatim>\<open>str(n)\<close> of an integer: decimal digits, a minus sign when negative.\<close>

definition digit_char :: "nat \<Rightarrow> char" where
  "digit_char d = ''0123456789'' ! d"

function digits_of :: "int \<Rightarrow> string" where
  "digits_of n =
     (if n < 10 then [digit_char (nat n)]
      else digits_of (n div 10) @ [digit_char (nat (n mod 10))])"
  by pat_completeness auto
termination
  by (relation "measure nat") auto

declare digits_of.simps [simp del]

definition str_int :: "int \<Rightarrow> string" where
  "str_int i = (if i < 0 then ''-'' @ digits_of (- i) else digits_of i)"

text \<open>
  \<^verbatim>\<open>re.search(pattern, text)\<close>: the pattern is tried at offset 0, 1, ... up to the end
  of the text, and the first offset where it matches wins. The argument \<open>m\<close> is the
  pattern anchored at the head of its input, returning the captured group.
\<close>

fun re_search :: "(string \<Rightarrow> 'a option) \<Rightarrow> string \<Rightarrow> 'a option" where
  "re_search m [] = m []"
| "re_search m (c # cs) = (case m (c # cs) of Some g \<Rightarrow> Some g | None \<Rightarrow> re_search m cs)"

text \<open>
  Randomness is an input: a draw is any natural number, \<^verbatim>\<open>random.choice\<close> indexes the
  sequence with it and \<^verbatim>\<open>random.randint(lo, hi)\<close> lands in the closed range.
\<close>

definition random_choice :: "nat \<Rightarrow> 'a list \<Rightarrow> 'a" where
  "random_choice r xs = xs ! (r mod length xs)"

definition randint :: "int \<Rightarrow> int \<Rightarrow> nat \<Rightarrow> int" where
  "randint lo hi r = lo + int (r mod nat (hi - lo + 1))"

datatype py_error = KeyError string | OverflowError | AttributeError

text \<open>\<^verbatim>\<open>str(e)\<close> of the exceptions the program itself can raise.\<close>

fun str_error :: "py_error \<Rightarrow> string" where
  "str_error (KeyError k) = [CHR 0x27] @ k @ [CHR 0x27]"
| "str_error OverflowError = ''integer division result too large for a float''"
| "str_error AttributeError = [CHR 0x27] @ ''NoneType'' @ [CHR 0x27] @ '' object has no attribute '' @ [CHR 0x27] @ ''reply_text'' @ [CHR 0x27]"


section \<open>extract\_video\_id\<close>

text \<open>
  \<^verbatim>\<open>
  patterns = [
      r'(?:v=|/)([0-9A-Za-z_-]{11}).*',
      r'(?:embed/)([0-9A-Za-z_-]{11})',
      r'youtu\.be/([0-9A-Za-z_-]{11})'
  ]
  for pattern in patterns:
      match = re.search(pattern, url)
      if match:
          return match.group(1)
  return None
  \<close>
\<close>

definition is_video_id :: "string \<Rightarrow> bool" where
  "is_video_id v = (length v = 11 \<and> list_all is_id_char v)"

text \<open>The group \<^verbatim>\<open>([0-9A-Za-z_-]{11})\<close> at the head of \<open>s\<close>.\<close>

definition group_id11 :: "string \<Rightarrow> string option" where
  "group_id11 s = (if is_video_id (take 11 s) then Some (take 11 s) else None)"

text \<open>A literal followed by the group, anchored at the head of \<open>s\<close>.\<close>

definition match_after :: "string \<Rightarrow> string \<Rightarrow> string option" where
  "match_after lit s = (if prefix lit s then group_id11 (drop (length lit) s) else None)"

text \<open>
  The trailing \<^verbatim>\<open>.*\<close> of the first pattern matches any rest, the empty one included,
  and does not change the group.
\<close>

definition pattern1 :: "string \<Rightarrow> string option" where
  "pattern1 s = (case match_after ''v='' s of Some v \<Rightarrow> Some v | None \<Rightarrow> match_after ''/'' s)"

definition pattern2 :: "string \<Rightarrow> string option" where
  "pattern2 s = match_after ''embed/'' s"

definition pattern3 :: "string \<Rightarrow> string option" where
  "pattern3 s = match_after ''youtu.be/'' s"

definition patterns :: "(string \<Rightarrow> string option) list" where
  "patterns = [pattern1, pattern2, pattern3]"

fun first_match :: "(string \<Rightarrow> string option) list \<Rightarrow> string \<Rightarrow> string option" where
  "first_match [] url = None"
| "first_match (p # ps) url =
     (case re_search p url of Some g \<Rightarrow> Some g | None \<Rightarrow> first_match ps url)"

definition extract_video_id :: "string \<Rightarrow> string option" where
  "extract_video_id url = first_match patterns url"

text \<open>
  The URL shapes in the words of the specification: at offset \<open>n\<close> of the text stands one
  of the markers of a family, followed by the eleven identifier characters \<open>v\<close>.
\<close>

definition shape_at :: "string list \<Rightarrow> string \<Rightarrow> nat \<Rightarrow> string \<Rightarrow> bool" where
  "shape_at markers url n v =
     (n \<le> length url \<and> is_video_id v \<and>
      list_ex (\<lambda>lit. prefix (lit @ v) (drop n url)) markers)"

definition watch_family :: "string list" where
  "watch_family = [''v='', ''/'']"

definition embed_family :: "string list" where
  "embed_family = [''embed/'']"

definition short_family :: "string list" where
  "short_family = [''youtu.be/'']"


section \<open>format\_duration\<close>

text \<open>
  \<^verbatim>\<open>
  match = re.match(r'PT(?:(\d+)H)?(?:(\d+)M)?(?:(\d+)S)?', duration)
  if not match:
      return "Unknown"
  hours, minutes, seconds = match.groups()
  parts = []
  if hours:
      parts.append(f"{hours}h")
  if minutes:
      parts.append(f"{minutes}m")
  if seconds:
      parts.append(f"{seconds}s")
  return " ".join(parts) if parts else "0s"
  \<close>

  An optional group \<^verbatim>\<open>(?:(\d+)U)?\<close> at the head of \<open>s\<close> takes the longest run of digits
  and needs the unit letter right after it; giving digits back cannot help, since the next
  character is then a digit. When it fails the group is skipped and nothing is consumed.
\<close>

definition group_unit :: "unicode_tables \<Rightarrow> char \<Rightarrow> string \<Rightarrow> string option \<times> string" where
  "group_unit U u s =
     (let n = class_run (is_digit U) s; ds = take n s; r = drop n s
      in if ds \<noteq> [] \<and> prefix [u] r then (Some ds, tl r) else (None, s))"

text \<open>\<^verbatim>\<open>re.match\<close> anchors at the start only; \<open>None\<close> is the failed match.\<close>

definition duration_groups ::
  "unicode_tables \<Rightarrow> string \<Rightarrow> (string option \<times> string option \<times> string option) option" where
  "duration_groups U d =
     (if prefix ''PT'' d then
        (let (hours, r1) = group_unit U (CHR ''H'') (drop 2 d);
             (minutes, r2) = group_unit U (CHR ''M'') r1;
             (seconds, r3) = group_unit U (CHR ''S'') r2
         in Some (hours, minutes, seconds))
      else None)"

text \<open>\<^verbatim>\<open>if g: parts.append(f"{g}u")\<close>: a group that is \<open>None\<close> or empty adds nothing.\<close>

definition part :: "string option \<Rightarrow> string \<Rightarrow> string list" where
  "part g u = (case g of None \<Rightarrow> [] | Some ds \<Rightarrow> (if ds = [] then [] else [ds @ u]))"

definition format_duration :: "unicode_tables \<Rightarrow> string \<Rightarrow> string" where
  "format_duration U d =
     (case duration_groups U d of
        None \<Rightarrow> ''Unknown''
      | Some (hours, minutes, seconds) \<Rightarrow>
          (let parts = part hours ''h'' @ part minutes ''m'' @ part seconds ''s''
           in if parts \<noteq> [] then join '' '' parts else ''0s''))"

text \<open>
  The duration grammar in the words of the specification: the whole token is \<^verbatim>\<open>PT\<close>
  followed by an optional hours, minutes and seconds component, each a non-empty run of
  the digits 0 to 9 and its unit letter.
\<close>

definition component :: "string option \<Rightarrow> string \<Rightarrow> string" where
  "component g u = (case g of None \<Rightarrow> [] | Some ds \<Rightarrow> ds @ u)"

definition digits_ok :: "string option \<Rightarrow> bool" where
  "digits_ok g = (case g of None \<Rightarrow> True | Some ds \<Rightarrow> ds \<noteq> [] \<and> list_all ascii_digit ds)"

definition hms_duration :: "string \<Rightarrow> string option \<Rightarrow> string option \<Rightarrow> string option \<Rightarrow> bool" where
  "hms_duration d h m s =
     (digits_ok h \<and> digits_ok m \<and> digits_ok s \<and>
      d = ''PT'' @ component h ''H'' @ component m ''M'' @ component s ''S'')"

text \<open>
  A component that the expression can parse stands at the head of \<open>r\<close>: a non-empty run
  of decimal digits, then one of the three unit letters.
\<close>

definition component_at_head :: "unicode_tables \<Rightarrow> string \<Rightarrow> bool" where
  "component_at_head U r =
     (let n = class_run (is_digit U) r
      in n \<noteq> 0 \<and> (case drop n r of [] \<Rightarrow> False | u # _ \<Rightarrow> u \<in> set ''HMS''))"


section \<open>format\_views\<close>

text \<open>
  \<^verbatim>\<open>
  count = int(count)
  if count >= 1_000_000:
      return f"{count / 1_000_000:.1f}M"
  elif count >= 1_000:
      return f"{count / 1_000:.1f}K"
  return str(count)
  \<close>

  The argument is the integer that \<^verbatim>\<open>int(count)\<close> yields, an unbounded Python
  integer; \<^verbatim>\<open>/\<close> is true division and yields a
  binary64 float, and \<^verbatim>\<open>.1f\<close> prints that float with one fractional digit. Both
  steps round, and both are modelled exactly, in integer arithmetic: a float is the pair
  of its 53-bit integral significand and its binary exponent.
\<close>

text \<open>The number of binary digits of a positive integer; 0 for the others.\<close>

function bit_length :: "int \<Rightarrow> nat" where
  "bit_length n = (if n \<le> 0 then 0 else Suc (bit_length (n div 2)))"
  by pat_completeness auto
termination
  by (relation "measure nat") auto

declare bit_length.simps [simp del]

text \<open>The integer nearest to \<open>a / b\<close> for \<open>b > 0\<close>, a tie going to the even neighbour.\<close>

definition round_half_even :: "int \<Rightarrow> int \<Rightarrow> int" where
  "round_half_even a b =
     (let q = a div b; r = a mod b
      in if 2 * r < b then q else if b < 2 * r then q + 1 else if even q then q else q + 1)"

record float64 =
  significand :: int
  exponent :: int

text \<open>The number a float stands for: \<open>significand * 2 ^ exponent\<close>.\<close>

definition float_value :: "float64 \<Rightarrow> real" where
  "float_value x =
     (if 0 \<le> exponent x then of_int (significand x) * 2 ^ nat (exponent x)
      else of_int (significand x) / 2 ^ nat (- exponent x))"

text \<open>
  \<^verbatim>\<open>a / b\<close> on integers with \<open>a \<ge> b > 0\<close>, the only calls the program makes: the
  binary64 number nearest to the exact quotient, ties to even, and \<^verbatim>\<open>OverflowError\<close>
  when that number would be \<open>2 ^ 1024\<close> or more. The quotient is at least 1, so it lies
  in the normal range: when its integer part has \<open>L\<close> bits, the last of the 53
  significant bits weighs \<open>2 ^ (L - 53)\<close>.
\<close>

definition true_div :: "int \<Rightarrow> int \<Rightarrow> py_error + float64" where
  "true_div a b =
     (let e = int (bit_length (a div b)) - 53;
          m = (if e \<le> 0 then round_half_even (a * 2 ^ nat (- e)) b
               else round_half_even a (b * 2 ^ nat e))
      in if 2 ^ 1024 \<le> m * 2 ^ nat e then Inl OverflowError
         else Inr \<lparr>significand = m, exponent = e\<rparr>)"

text \<open>
  \<^verbatim>\<open>f"{x:.1f}"\<close> for a float \<open>x \<ge> 0\<close>: the number of tenths nearest to the exact
  value of \<open>x\<close>, ties to even, printed with the last digit after the point.
\<close>

definition format_1f :: "float64 \<Rightarrow> string" where
  "format_1f x =
     (let m = significand x; e = exponent x;
          tenths = (if 0 \<le> e then 10 * m * 2 ^ nat e
                    else round_half_even (10 * m) (2 ^ nat (- e)))
      in str_int (tenths div 10) @ ''.'' @ str_int (tenths mod 10))"

definition format_views :: "int \<Rightarrow> py_error + string" where
  "format_views count =
     (if count \<ge> 1000000 then
        (case true_div count 1000000 of
           Inl err \<Rightarrow> Inl err
         | Inr x \<Rightarrow> Inr (format_1f x @ ''M''))
      else if count \<ge> 1000 then
        (case true_div count 1000 of
           Inl err \<Rightarrow> Inl err
         | Inr x \<Rightarrow> Inr (format_1f x @ ''K''))
      else Inr (str_int count))"

text \<open>
  The decimal numeral with one fractional digit for \<open>n\<close> tenths, as the specification's
  examples write it (\<open>15\<close> tenths is \<^verbatim>\<open>1.5\<close>).
\<close>

definition one_decimal :: "int \<Rightarrow> string" where
  "one_decimal n = str_int (n div 10) @ ''.'' @ [digit_char (nat (n mod 10))]"


section \<open>get\_detective\_reaction\<close>

datatype category = low_factual | moderate_mixed | high_questionable

definition cat_kiss :: string where
  "cat_kiss = [CHR 0xF0, CHR 0x9F, CHR 0x98, CHR 0xBD]"

definition cat_weary :: string where
  "cat_weary = [CHR 0xF0, CHR 0x9F, CHR 0x99, CHR 0x80]"

definition cat_pout :: string where
  "cat_pout = [CHR 0xF0, CHR 0x9F, CHR 0x98, CHR 0xBE]"

definition jaimes_take :: string where
  "jaimes_take = '' *Jaime'' @ [CHR 0x27] @ ''s Take:* ''"

fun reactions :: "category \<Rightarrow> string list" where
  "reactions low_factual =
     [cat_kiss @ jaimes_take @ ''This one smells fresh! Content appears credible and well-researched.'',
      cat_kiss @ cat_kiss @ jaimes_take @ ''My whiskers approve! Solid information with minimal bias detected.'',
      cat_kiss @ cat_kiss @ cat_kiss @ jaimes_take @ ''Investigation complete - this checks out as trustworthy content.'']"
| "reactions moderate_mixed =
     [cat_weary @ jaimes_take @ ''Something fishy here... Mixed signals detected. Cross-reference recommended.'',
      cat_weary @ cat_weary @ jaimes_take @ ''Partial truth alert! Contains both facts and opinions - view critically.'',
      cat_weary @ cat_weary @ cat_weary @ jaimes_take @ ''My detective senses tingling. Not entirely objective - proceed with awareness.'']"
| "reactions high_questionable =
     [cat_pout @ cat_pout @ cat_pout @ jaimes_take @ ''RED FLAG! High bias detected. This content may be misleading or agenda-driven.'',
      cat_pout @ jaimes_take @ ''Strong commercial/ideological bias present. Verify claims independently.'',
      cat_pout @ cat_pout @ jaimes_take @ ''Suspicious content detected. Treat claims with significant skepticism.'']"

text \<open>
  \<^verbatim>\<open>
  bias_lower = bias_level.lower()
  fact_lower = factuality.lower()
  if "low" in bias_lower and "factual" in fact_lower:
      category = "low_factual"
  elif "high" in bias_lower or "questionable" in fact_lower:
      category = "high_questionable"
  else:
      category = "moderate_mixed"
  return random.choice(reactions[category])
  \<close>
\<close>

definition reaction_category :: "string \<Rightarrow> string \<Rightarrow> category" where
  "reaction_category bias_level factuality =
     (let bias_lower = lower bias_level; fact_lower = lower factuality
      in if contains ''low'' bias_lower \<and> contains ''factual'' fact_lower then low_factual
         else if contains ''high'' bias_lower \<or> contains ''questionable'' fact_lower
              then high_questionable
         else moderate_mixed)"

definition get_detective_reaction :: "nat \<Rightarrow> string \<Rightarrow> string \<Rightarrow> string" where
  "get_detective_reaction draw bias_level factuality =
     random_choice draw (reactions (reaction_category bias_level factuality))"

text \<open>
  Containment regardless of case, in the words of the specification: some stretch of the
  text equals the needle once both are lowered.
\<close>

definition contains_ci :: "string \<Rightarrow> string \<Rightarrow> bool" where
  "contains_ci needle txt =
     (\<exists>pre mid post. txt = pre @ mid @ post \<and> lower mid = lower needle)"

text \<open>
  The labelled fields of the assessment.
  \<^verbatim>\<open>
  bias_match = re.search(r'Bias:\s*(\w+)', analysis)
  fact_match = re.search(r'Factuality:\s*(\w+)', analysis)
  bias_level = bias_match.group(1) if bias_match else "Unknown"
  factuality = fact_match.group(1) if fact_match else "Unknown"
  \<close>
  After the label the white space is skipped greedily and at least one word character must
  follow; a shorter run of white space cannot help, the next character being white space
  and so no word character. The group is the longest run of word characters.
\<close>

definition match_label :: "unicode_tables \<Rightarrow> string \<Rightarrow> string \<Rightarrow> string option" where
  "match_label U label s =
     (if prefix label s then
        (let r = drop (length label) s;
             r' = drop (class_run is_space r) r;
             w = take (class_run (is_word_char U) r') r'
         in if w \<noteq> [] then Some w else None)
      else None)"

definition bias_level_of :: "unicode_tables \<Rightarrow> string \<Rightarrow> string" where
  "bias_level_of U analysis =
     (case re_search (match_label U ''Bias:'') analysis of Some w \<Rightarrow> w | None \<Rightarrow> ''Unknown'')"

definition factuality_of :: "unicode_tables \<Rightarrow> string \<Rightarrow> string" where
  "factuality_of U analysis =
     (case re_search (match_label U ''Factuality:'') analysis of
        Some w \<Rightarrow> w
      | None \<Rightarrow> ''Unknown'')"



section \<open>The request pipeline\<close>

text \<open>
  The two upstream services are inputs of the model: what the catalogue answers for an
  identifier and what the generative model answers for a prompt, each either the text of
  the exception it raised (\<open>Inl\<close>) or its result. The catalogue's answer is typed after
  the fields the program reads; a key that may be absent is an \<open>option\<close>. The view count
  arrives as a decimal numeral and \<^verbatim>\<open>int(count)\<close> reads it: the model carries the
  integer it denotes.
\<close>

record snippet_fields =
  title :: "string option"
  description :: "string option"
  channelTitle :: "string option"

record statistics_fields =
  viewCount :: "int option"

record content_details_fields =
  duration :: "string option"

record video_item =
  snippet :: "snippet_fields option"
  statistics :: "statistics_fields option"
  contentDetails :: "content_details_fields option"

record videos_response =
  items :: "video_item list option"

record services =
  videos_list :: "string \<Rightarrow> string + videos_response"
  generate_content :: "string \<Rightarrow> string + string"

text \<open>The random draws of one request, in the order the program makes them.\<close>

record draws =
  loading_draw :: nat
  reaction_draw :: nat
  report_draw :: nat
  not_link_draw :: nat

text \<open>
  What a request does, in order: messages sent (\<^verbatim>\<open>reply_text\<close>), the status message
  edited (\<^verbatim>\<open>edit_text\<close>, plain or with \<^verbatim>\<open>parse_mode=ParseMode.MARKDOWN\<close> and
  \<^verbatim>\<open>disable_web_page_preview=True\<close>), and the calls to the two services.
\<close>

datatype event =
    ReplyText string
  | EditText string
  | EditTextMarkdown string
  | VideosList string
  | GenerateContent string

definition cross_mark :: string where
  "cross_mark = [CHR 0xE2, CHR 0x9D, CHR 0x8C]"

definition heavy_line :: string where
  "heavy_line = [CHR 0xE2, CHR 0x94, CHR 0x81]"

definition divider :: string where
  "divider = concat [heavy_line, heavy_line, heavy_line, heavy_line, heavy_line, heavy_line,
                     heavy_line, heavy_line, heavy_line, heavy_line, heavy_line, heavy_line,
                     heavy_line, heavy_line, heavy_line, heavy_line, heavy_line, heavy_line]"

definition newline :: string where
  "newline = [CHR 0x0A]"

definition loading_messages :: "string list" where
  "loading_messages =
     [[CHR 0xF0, CHR 0x9F, CHR 0x94, CHR 0x8D] @ '' Investigating the evidence...'',
      [CHR 0xF0, CHR 0x9F, CHR 0x95, CHR 0xB5, CHR 0xEF, CHR 0xB8, CHR 0x8F] @ '' Detective Jaime on the case...'',
      [CHR 0xF0, CHR 0x9F, CHR 0x91, CHR 0x83] @ '' Analyzing content patterns...'',
      [CHR 0xF0, CHR 0x9F, CHR 0x93, CHR 0x8B] @ '' Gathering intelligence...'']"

definition invalid_evidence_text :: string where
  "invalid_evidence_text =
     cross_mark @ '' *Invalid Evidence:* That'' @ [CHR 0x27] @
     ''s not a valid YouTube link. Please provide a proper URL.''"

definition video_not_found_text :: string where
  "video_not_found_text =
     cross_mark @ '' *Video Not Found:* This video is unavailable or has been removed.''"

definition fetch_error_text :: "string \<Rightarrow> string" where
  "fetch_error_text e = cross_mark @ '' *Fetch Error:* Unable to retrieve video data: '' @ e"

definition analysis_error_text :: "string \<Rightarrow> string" where
  "analysis_error_text e = cross_mark @ '' *Analysis Error:* '' @ e"

definition running_text :: string where
  "running_text = [CHR 0xF0, CHR 0x9F, CHR 0xA4, CHR 0x96] @ '' Running analysis algorithms...''"

text \<open>
  The fields read from the first item, in the order of the source; a missing key under
  \<^verbatim>\<open>[...]\<close> raises \<^verbatim>\<open>KeyError\<close>, one under \<^verbatim>\<open>.get\<close> takes the default.
  \<^verbatim>\<open>
  snippet = video_data["snippet"]
  stats = video_data.get("statistics", {})
  content_details = video_data.get("contentDetails", {})
  title = snippet["title"]
  description = snippet.get("description", "No description available")
  channel = snippet.get("channelTitle", "Unknown")
  duration = format_duration(content_details.get("duration", "PT0S"))
  views = format_views(stats.get("viewCount", 0))
  \<close>
\<close>

record details =
  d_title :: string
  d_description :: string
  d_channel :: string
  d_duration :: string
  d_views :: string

definition get_default :: "'a option \<Rightarrow> 'a \<Rightarrow> 'a" where
  "get_default v dflt = (case v of Some x \<Rightarrow> x | None \<Rightarrow> dflt)"

definition video_details :: "unicode_tables \<Rightarrow> video_item \<Rightarrow> py_error + details" where
  "video_details U video_data =
     (case snippet video_data of
        None \<Rightarrow> Inl (KeyError ''snippet'')
      | Some sn \<Rightarrow>
          (let stats = get_default (statistics video_data) \<lparr>viewCount = None\<rparr>;
               content_details = get_default (contentDetails video_data) \<lparr>duration = None\<rparr>
           in case title sn of
                None \<Rightarrow> Inl (KeyError ''title'')
              | Some t \<Rightarrow>
                  (case format_views (get_default (viewCount stats) 0) of
                     Inl err \<Rightarrow> Inl err
                   | Inr views \<Rightarrow>
                       Inr \<lparr>d_title = t,
                            d_description = get_default (description sn) ''No description available'',
                            d_channel = get_default (channelTitle sn) ''Unknown'',
                            d_duration = format_duration U (get_default (duration content_details) ''PT0S''),
                            d_views = views\<rparr>)))"

definition prompt :: "details \<Rightarrow> string" where
  "prompt d =
     newline @ ''Analyze this YouTube video and provide a professional assessment:'' @ newline @
     newline @ ''Title: '' @ d_title d @
     newline @ ''Channel: '' @ d_channel d @
     newline @ ''Description: '' @ d_description d @ newline @
     newline @ ''**FORMAT YOUR RESPONSE EXACTLY LIKE THIS:**'' @ newline @
     newline @ ''Key Points:'' @
     newline @ ''- [First main point - be specific and clear]'' @
     newline @ ''- [Second main point]'' @
     newline @ ''- [Third main point]'' @
     newline @ ''- [Fourth main point]'' @
     newline @ ''- [Fifth main point]'' @ newline @
     newline @ ''Quick Analysis:'' @
     newline @ ''Bias: [Low/Moderate/High]'' @
     newline @ ''[Brief professional explanation]'' @ newline @
     newline @ ''Factuality: [Factual/Opinion/Mixed]'' @
     newline @ ''[Brief professional assessment]'' @ newline @
     newline @ ''Type: [News/Educational/Entertainment/Commentary]'' @ newline @
     newline @ ''Keep it concise and professional. Each bullet should be 1-2 sentences max.'' @
     newline"

text \<open>
  The report.
  \<^verbatim>\<open>
  response = f"... *INVESTIGATION REPORT #{random.randint(1000, 9999)}*\n"
  response += f"...\n\n"
  response += f"*Title:* {title}\n"
  response += f"*Channel:* {channel}\n"
  response += f"*Duration:* {duration}\n"
  response += f"*Views:* {views}\n"
  response += f"*Link:* https://youtube.com/watch?v={video_id}\n\n"
  response += f"{analysis}\n\n"
  response += f"...\n"
  response += f"{detective_reaction}"
  \<close>
\<close>

definition report_header :: "int \<Rightarrow> string" where
  "report_header number =
     [CHR 0xF0, CHR 0x9F, CHR 0x95, CHR 0xB5, CHR 0xEF, CHR 0xB8, CHR 0x8F] @
     '' *INVESTIGATION REPORT #'' @ str_int number @ ''*'' @ newline"

definition report :: "int \<Rightarrow> details \<Rightarrow> string \<Rightarrow> string \<Rightarrow> string \<Rightarrow> string" where
  "report number d video_id analysis detective_reaction =
     report_header number @
     divider @ newline @ newline @
     ''*Title:* '' @ d_title d @ newline @
     ''*Channel:* '' @ d_channel d @ newline @
     ''*Duration:* '' @ d_duration d @ newline @
     ''*Views:* '' @ d_views d @ newline @
     ''*Link:* https://youtube.com/watch?v='' @ video_id @ newline @ newline @
     analysis @ newline @ newline @
     divider @ newline @
     detective_reaction"

text \<open>
  \<^verbatim>\<open>summarize_youtube(update, context, url)\<close>. The second \<^verbatim>\<open>try\<close> block: the
  model's text is stripped, the two fields are searched, the reaction is drawn, then the
  report number. Sending and editing messages is taken to succeed.
\<close>

definition analyse ::
  "unicode_tables \<Rightarrow> services \<Rightarrow> draws \<Rightarrow> string \<Rightarrow> details \<Rightarrow> event list" where
  "analyse U sv rnd video_id d =
     GenerateContent (prompt d) #
     (case generate_content sv (prompt d) of
        Inl e \<Rightarrow> [EditText (analysis_error_text e)]
      | Inr result_text \<Rightarrow>
          (let analysis = strip result_text;
               bias_level = bias_level_of U analysis;
               factuality = factuality_of U analysis;
               detective_reaction = get_detective_reaction (reaction_draw rnd) bias_level factuality;
               number = randint 1000 9999 (report_draw rnd)
           in [EditTextMarkdown (report number d video_id analysis detective_reaction)]))"

definition summarize_youtube ::
  "unicode_tables \<Rightarrow> services \<Rightarrow> draws \<Rightarrow> string \<Rightarrow> event list" where
  "summarize_youtube U sv rnd url =
     ReplyText (random_choice (loading_draw rnd) loading_messages) #
     (case extract_video_id url of
        None \<Rightarrow> [EditText invalid_evidence_text]
      | Some video_id \<Rightarrow>
          (if video_id = [] then [EditText invalid_evidence_text]
           else VideosList video_id #
             (case videos_list sv video_id of
                Inl e \<Rightarrow> [EditText (fetch_error_text e)]
              | Inr info \<Rightarrow>
                  (case get_default (items info) [] of
                     [] \<Rightarrow> [EditText video_not_found_text]
                   | video_data # _ \<Rightarrow>
                       (case video_details U video_data of
                          Inl err \<Rightarrow> [EditText (fetch_error_text (str_error err))]
                        | Inr d \<Rightarrow> EditText running_text # analyse U sv rnd video_id d)))))"

text \<open>
  \<^verbatim>\<open>
  text = update.effective_message.text
  if text and ("youtube.com" in text or "youtu.be" in text):
      summarize_youtube(update, context, text)
  else:
      reactions = [...]
      update.message.reply_text(random.choice(reactions))
  \<close>
  An update carries the message it is about (\<^verbatim>\<open>effective_message\<close>); its
  \<^verbatim>\<open>message\<close> attribute is that message when the update is a new inbound message and
  \<^verbatim>\<open>None\<close> otherwise (an edited message, a channel post), where calling
  \<^verbatim>\<open>reply_text\<close> on it raises \<^verbatim>\<open>AttributeError\<close>.
\<close>

record tg_message =
  msg_text :: "string option"

record update =
  message :: "tg_message option"
  effective_message :: tg_message

definition not_link_reactions :: "string list" where
  "not_link_reactions =
     [[CHR 0xF0, CHR 0x9F, CHR 0xA4, CHR 0x94] @ '' That'' @ [CHR 0x27] @
        ''s not a YouTube link. Please send a valid YouTube URL for analysis.'',
      [CHR 0xE2, CHR 0x9D, CHR 0x93] @
        '' I need a YouTube link to investigate. Try: youtube.com/watch?v=...'',
      [CHR 0xF0, CHR 0x9F, CHR 0x90, CHR 0x9F] @ '' Send me a YouTube link and I'' @ [CHR 0x27] @
        ''ll analyze it for you!'']"

definition handle_message ::
  "unicode_tables \<Rightarrow> services \<Rightarrow> draws \<Rightarrow> update \<Rightarrow> py_error + event list" where
  "handle_message U sv rnd upd =
     (let t = msg_text (effective_message upd);
          not_a_link =
            (case message upd of
               None \<Rightarrow> Inl AttributeError
             | Some m \<Rightarrow> Inr [ReplyText (random_choice (not_link_draw rnd) not_link_reactions)])
      in case t of
           None \<Rightarrow> not_a_link
         | Some s \<Rightarrow>
             (if s \<noteq> [] \<and> (contains ''youtube.com'' s \<or> contains ''youtu.be'' s)
              then Inr (summarize_youtube U sv rnd s)
              else not_a_link))"




definition empty_catalogue_services :: services where
  "empty_catalogue_services =
     \<lparr>videos_list = (\<lambda>video_id. Inr \<lparr>items = Some []\<rparr>),
      generate_content = (\<lambda>p. Inr ''Bias: Low'')\<rparr>"

definition first_draws :: draws where
  "first_draws = \<lparr>loading_draw = 0, reaction_draw = 0, report_draw = 0, not_link_draw = 0\<rparr>"


section \<open>Runs of a character class\<close>

lemma char_width_pos: "0 < char_width c"
  by (simp add: char_width_def)

lemma class_run_Nil [simp]: "class_run P [] = 0"
  by (simp add: class_run.simps)

lemma class_run_le: "class_run P s \<le> length s"
proof (induction P s rule: class_run.induct)
  case (1 P s)
  show ?case
  proof (cases "s \<noteq> [] \<and> char_width (hd s) \<le> length s \<and> P (take (char_width (hd s)) s)")
    case True
    with 1 have "class_run P (drop (char_width (hd s)) s) \<le> length (drop (char_width (hd s)) s)"
      by simp
    with True show ?thesis by (auto simp add: class_run.simps [of P s] Let_def)
  next
    case False
    then show ?thesis by (auto simp: class_run.simps [of P s] Let_def)
  qed
qed

lemma class_run_append:
  "all_chars P a \<Longrightarrow> class_run P (a @ t) = length a + class_run P t"
proof (induction P a rule: class_run.induct)
  case (1 P a)
  show ?case
  proof (cases "a = []")
    case True
    then show ?thesis by simp
  next
    case False
    define w where "w = char_width (hd a)"
    from 1(2) False have ok: "w \<le> length a \<and> P (take w a)"
      and rest: "w + class_run P (drop w a) = length a"
      unfolding all_chars_def w_def
      by (auto simp: class_run.simps [of P a] Let_def split: if_splits)
    from rest ok have "all_chars P (drop w a)" by (simp add: all_chars_def)
    with 1(1) False ok have ih: "class_run P (drop w a @ t) = length (drop w a) + class_run P t"
      by (simp add: w_def)
    have hd: "hd (a @ t) = hd a" using False by simp
    have tk: "take w (a @ t) = take w a" using ok by simp
    have dr: "drop w (a @ t) = drop w a @ t" using ok by simp
    have "class_run P (a @ t) = w + class_run P (drop w a @ t)"
      using False ok by (simp add: class_run.simps [of P "a @ t"] hd w_def [symmetric] tk dr)
    with ih ok show ?thesis by simp
  qed
qed

lemma all_chars_run: "all_chars P (take (class_run P s) s)"
proof (induction P s rule: class_run.induct)
  case (1 P s)
  show ?case
  proof (cases "s \<noteq> [] \<and> char_width (hd s) \<le> length s \<and> P (take (char_width (hd s)) s)")
    case False
    then have "class_run P s = 0" by (auto simp: class_run.simps [of P s] Let_def)
    then show ?thesis by (simp add: all_chars_def)
  next
    case True
    define w where "w = char_width (hd s)"
    from True have ok: "s \<noteq> []" "w \<le> length s" "P (take w s)" by (simp_all add: w_def)
    have wpos: "0 < w" unfolding w_def by (rule char_width_pos)
    have r: "class_run P s = w + class_run P (drop w s)"
      using ok by (simp add: class_run.simps [of P s] w_def [symmetric])
    from 1 ok have ih: "all_chars P (take (class_run P (drop w s)) (drop w s))"
      by (simp add: w_def)
    have one: "all_chars P (take w s)"
    proof -
      have "take w s \<noteq> []" using ok wpos by auto
      moreover have "hd (take w s) = hd s" using ok wpos by (cases s) (auto simp: take_Suc_conv_app_nth gr0_conv_Suc)
      ultimately show ?thesis
        using ok by (simp add: all_chars_def class_run.simps [of P "take w s"] w_def [symmetric] min_absorb2)
    qed
    have "take (class_run P s) s = take w s @ take (class_run P (drop w s)) (drop w s)"
      unfolding r by (simp add: take_add)
    moreover have "class_run P (take w s @ take (class_run P (drop w s)) (drop w s)) =
        length (take w s) + class_run P (take (class_run P (drop w s)) (drop w s))"
      using one by (rule class_run_append)
    ultimately show ?thesis using ih ok by (simp add: all_chars_def)
  qed
qed

lemma all_chars_Nil [simp]: "all_chars P []"
  by (simp add: all_chars_def)

lemma class_run_stop: "char_width c = 1 \<Longrightarrow> \<not> P [c] \<Longrightarrow> class_run P (c # r) = 0"
  by (simp add: class_run.simps [of P "c # r"])

lemma class_run_step: "char_width c = 1 \<Longrightarrow> P [c] \<Longrightarrow> class_run P (c # r) = Suc (class_run P r)"
  by (simp add: class_run.simps [of P "c # r"])

lemma ascii_digit_width: "ascii_digit c \<Longrightarrow> char_width c = 1"
  by (auto simp: ascii_digit_def char_width_def)

lemma is_digit_single [simp]: "is_digit U [c] = ascii_digit c"
  by (simp add: is_digit_def)

lemma ascii_digits_all_chars: "list_all ascii_digit ds \<Longrightarrow> all_chars (is_digit U) ds"
  unfolding all_chars_def
  by (induction ds) (simp_all add: class_run_step ascii_digit_width)

lemma digits_then_letter:
  assumes "all_chars (is_digit U) ds" and "char_width u = 1" and "\<not> ascii_digit u"
  shows "class_run (is_digit U) (ds @ u # r) = length ds"
proof -
  have "class_run (is_digit U) (u # r) = 0" using assms(2,3) by (simp add: class_run_stop)
  with class_run_append [OF assms(1), of "u # r"] show ?thesis by simp
qed

lemma unit_letters [simp]:
  "char_width (CHR ''H'') = 1" "char_width (CHR ''M'') = 1" "char_width (CHR ''S'') = 1"
  "\<not> ascii_digit (CHR ''H'')" "\<not> ascii_digit (CHR ''M'')" "\<not> ascii_digit (CHR ''S'')"
  by (simp_all add: char_width_def ascii_digit_def)





lemma class_run_step2:
  "char_width c = 2 \<Longrightarrow> P [c, d] \<Longrightarrow> class_run P (c # d # r) = 2 + class_run P r"
  by (simp add: class_run.simps [of P "c # d # r"])

lemma class_run_stop2:
  "char_width c = 2 \<Longrightarrow> \<not> P [c, d] \<Longrightarrow> class_run P (c # d # r) = 0"
  by (simp add: class_run.simps [of P "c # d # r"])


section \<open>Text outside ASCII\<close>

text \<open>
  The classes are those of the interpreter on \<^verbatim>\<open>str\<close>: a no-break space (U+00A0)
  after a label is skipped as white space, \<^verbatim>\<open>strip\<close> removes it and the line
  separator (U+2028), a letter with an accent belongs to the word when the table has it,
  and digits of another script (U+0661, U+0662) make a component of a duration when the
  table has them.
\<close>

lemma no_break_space_after_label:
  "bias_level_of U (''Bias:'' @ [CHR 0xC2, CHR 0xA0] @ ''High'') = ''High''"
  by code_simp

lemma strip_no_break_space:
  "strip ([CHR 0xC2, CHR 0xA0] @ ''Bias: Low'' @ [CHR 0xE2, CHR 0x80, CHR 0xA8]) = ''Bias: Low''"
  by code_simp

lemma accented_letter_in_word:
  assumes "alphanumeric U [CHR 0xC3, CHR 0xA9]"
  shows "bias_level_of U (''Bias: '' @ [CHR 0xC3, CHR 0xA9] @ ''High'') =
           [CHR 0xC3, CHR 0xA9] @ ''High''"
proof -
  have w: "char_width (CHR 0xC3) = 2" "char_width CHR ''H'' = 1" "char_width CHR ''i'' = 1"
    "char_width CHR ''g'' = 1" "char_width CHR ''h'' = 1" "char_width CHR '' '' = 1"
    by (simp_all add: char_width_def)
  have sp: "is_space '' ''" "\<not> is_space [CHR 0xC3, CHR 0xA9]"
    by (simp_all add: is_space_def white_space_def)
  have wd: "is_word_char U [CHR 0xC3, CHR 0xA9]" "is_word_char U ''H''" "is_word_char U ''i''"
    "is_word_char U ''g''" "is_word_char U ''h''"
    using assms sp(2) by (simp_all add: is_word_char_def)
  have a: "class_run is_space ('' '' @ [CHR 0xC3, CHR 0xA9] @ ''High'') = 1"
    by (simp add: class_run_step class_run_stop2 w sp)
  have b: "class_run (is_word_char U) ([CHR 0xC3, CHR 0xA9] @ ''High'') = 6"
    by (simp add: class_run_step class_run_step2 w wd)
  have "match_label U ''Bias:'' (''Bias: '' @ [CHR 0xC3, CHR 0xA9] @ ''High'') =
      Some ([CHR 0xC3, CHR 0xA9] @ ''High'')"
    using a b by (simp add: match_label_def Let_def)
  then show ?thesis by (simp add: bias_level_of_def)
qed

lemma accented_letter_not_in_table:
  assumes "\<not> alphanumeric U [CHR 0xC3, CHR 0xA9]"
  shows "bias_level_of U (''Bias: '' @ [CHR 0xC3, CHR 0xA9] @ ''High'') = ''Unknown''"
proof -
  have w: "char_width (CHR 0xC3) = 2" "char_width CHR '' '' = 1"
    by (simp_all add: char_width_def)
  have sp: "is_space '' ''" "\<not> is_space [CHR 0xC3, CHR 0xA9]"
    by (simp_all add: is_space_def white_space_def)
  have wd: "\<not> is_word_char U [CHR 0xC3, CHR 0xA9]"
    using assms by (simp add: is_word_char_def)
  have a: "class_run is_space ('' '' @ [CHR 0xC3, CHR 0xA9] @ ''High'') = 1"
    by (simp add: class_run_step class_run_stop2 w sp)
  have b: "class_run (is_word_char U) ([CHR 0xC3, CHR 0xA9] @ ''High'') = 0"
    by (simp add: class_run_stop2 w wd)
  have m: "match_label U ''Bias:'' (''Bias: '' @ [CHR 0xC3, CHR 0xA9] @ ''High'') = None"
    using a b by (simp add: match_label_def Let_def)
  have n: "match_label U ''Bias:'' (c # s) = None" if "c \<noteq> CHR ''B''" for c s
    using that by (simp add: match_label_def)
  have e: "match_label U ''Bias:'' [] = None" by (simp add: match_label_def)
  have "re_search (match_label U ''Bias:'') (''Bias: '' @ [CHR 0xC3, CHR 0xA9] @ ''High'') = None"
    using m by (simp add: n e)
  then show ?thesis by (simp add: bias_level_of_def)
qed

lemma digits_of_another_script:
  assumes "decimal_digit U [CHR 0xD9, CHR 0xA1]" and "decimal_digit U [CHR 0xD9, CHR 0xA2]"
  shows "format_duration U (''PT'' @ [CHR 0xD9, CHR 0xA1, CHR 0xD9, CHR 0xA2] @ ''M'') =
           [CHR 0xD9, CHR 0xA1, CHR 0xD9, CHR 0xA2] @ ''m''"
proof -
  have w: "char_width (CHR 0xD9) = 2" by (simp add: char_width_def)
  have d: "is_digit U [CHR 0xD9, CHR 0xA1]" "is_digit U [CHR 0xD9, CHR 0xA2]"
    using assms by (simp_all add: is_digit_def)
  have r: "class_run (is_digit U) ([CHR 0xD9, CHR 0xA1, CHR 0xD9, CHR 0xA2] @ ''M'') = 4"
    by (simp add: class_run_step2 class_run_stop w d)
  have "duration_groups U (''PT'' @ [CHR 0xD9, CHR 0xA1, CHR 0xD9, CHR 0xA2] @ ''M'') =
      Some (None, Some [CHR 0xD9, CHR 0xA1, CHR 0xD9, CHR 0xA2], None)"
    using r by (simp add: duration_groups_def group_unit_def Let_def)
  then show ?thesis by (simp add: format_duration_def part_def)
qed


section \<open>Searching for the identifier\<close>

lemma match_after_Some:
  "match_after lit s = Some v \<longleftrightarrow> prefix (lit @ v) s \<and> is_video_id v"
proof
  assume "match_after lit s = Some v"
  then have p: "prefix lit s" and g: "group_id11 (drop (length lit) s) = Some v"
    by (auto simp: match_after_def split: if_splits)
  from g have v: "v = take 11 (drop (length lit) s)" and iv: "is_video_id v"
    by (auto simp: group_id11_def split: if_splits)
  from p obtain r where s: "s = lit @ r" by (auto simp: prefix_def)
  with v have "v = take 11 r" by simp
  then have "prefix v r" by (simp add: take_is_prefix)
  with s iv show "prefix (lit @ v) s \<and> is_video_id v" by simp
next
  assume a: "prefix (lit @ v) s \<and> is_video_id v"
  then obtain r where s: "s = lit @ v @ r" by (auto simp: prefix_def)
  from a have "length v = 11" by (simp add: is_video_id_def)
  with s a show "match_after lit s = Some v"
    by (simp add: match_after_def group_id11_def)
qed

lemma pattern1_Some:
  "pattern1 s = Some v \<longleftrightarrow>
     is_video_id v \<and> (prefix (''v='' @ v) s \<or> prefix (''/'' @ v) s)"
proof (cases "match_after ''v='' s")
  case None
  then have "\<not> (prefix (''v='' @ v) s \<and> is_video_id v)"
    using match_after_Some [of "''v=''" s v] by simp
  with None show ?thesis
    using match_after_Some [of "''/''" s v] by (auto simp: pattern1_def)
next
  case (Some w)
  then have w: "prefix (''v='' @ w) s" "is_video_id w"
    using match_after_Some [of "''v=''" s w] by simp_all
  then obtain r where s: "s = ''v='' @ w @ r" by (auto simp: prefix_def)
  have len: "length w = 11" using w(2) by (simp add: is_video_id_def)
  have "is_video_id v \<Longrightarrow> prefix (''v='' @ v) s \<Longrightarrow> v = w"
  proof -
    assume "is_video_id v" and "prefix (''v='' @ v) s"
    then have "prefix v (w @ r)" "length v = 11" using s by (simp_all add: is_video_id_def)
    then show "v = w" using len by (auto simp: prefix_def append_eq_append_conv)
  qed
  moreover have "\<not> prefix (''/'' @ v) s" using s by simp
  ultimately show ?thesis using Some w by (auto simp: pattern1_def)
qed

lemma shape_at_watch:
  "shape_at watch_family url n v \<longleftrightarrow> n \<le> length url \<and> pattern1 (drop n url) = Some v"
  by (auto simp: shape_at_def watch_family_def pattern1_Some)

lemma shape_at_embed:
  "shape_at embed_family url n v \<longleftrightarrow> n \<le> length url \<and> pattern2 (drop n url) = Some v"
  by (auto simp: shape_at_def embed_family_def pattern2_def match_after_Some)

lemma shape_at_short:
  "shape_at short_family url n v \<longleftrightarrow> n \<le> length url \<and> pattern3 (drop n url) = Some v"
  by (auto simp: shape_at_def short_family_def pattern3_def match_after_Some)

lemma shape_slash_shift:
  assumes "n \<le> length url" and "is_video_id v" and "prefix ((lit @ ''/'') @ v) (drop n url)"
  shows "shape_at watch_family url (n + length lit) v"
proof -
  from assms(3) obtain r where r: "drop n url = lit @ ''/'' @ v @ r"
    by (auto simp: prefix_def)
  then have "drop (length lit) (drop n url) = ''/'' @ v @ r" by simp
  then have d: "drop (n + length lit) url = ''/'' @ v @ r" by (simp add: add.commute)
  then have "n + length lit \<le> length url"
    by (metis drop_all list.distinct(1) append_Cons not_le le_cases)
  with d assms(2) show ?thesis
    by (simp add: shape_at_def watch_family_def)
qed

lemma embed_is_watch:
  assumes "shape_at embed_family url n v"
  shows "shape_at watch_family url (n + length ''embed'') v"
proof -
  from assms have "n \<le> length url" and "is_video_id v"
    and "prefix ((''embed'' @ ''/'') @ v) (drop n url)"
    by (simp_all add: shape_at_def embed_family_def)
  then show ?thesis by (rule shape_slash_shift)
qed

lemma short_is_watch:
  assumes "shape_at short_family url n v"
  shows "shape_at watch_family url (n + length ''youtu.be'') v"
proof -
  from assms have "n \<le> length url" and "is_video_id v"
    and "prefix ((''youtu.be'' @ ''/'') @ v) (drop n url)"
    by (simp_all add: shape_at_def short_family_def)
  then show ?thesis by (rule shape_slash_shift)
qed

lemma re_search_Some:
  "re_search m s = Some g \<longleftrightarrow>
     (\<exists>n\<le>length s. m (drop n s) = Some g \<and> (\<forall>k<n. m (drop k s) = None))"
proof (induction s)
  case Nil
  then show ?case by simp
next
  case (Cons c cs)
  show ?case
  proof (cases "m (c # cs)")
    case None
    have "(\<exists>n\<le>length (c # cs). m (drop n (c # cs)) = Some g \<and> (\<forall>k<n. m (drop k (c # cs)) = None))
        \<longleftrightarrow> (\<exists>n\<le>length cs. m (drop n cs) = Some g \<and> (\<forall>k<n. m (drop k cs) = None))"
      (is "?L \<longleftrightarrow> ?R")
    proof
      assume ?L
      then obtain n where n: "n \<le> length (c # cs)" "m (drop n (c # cs)) = Some g"
        "\<forall>k<n. m (drop k (c # cs)) = None" by blast
      with None obtain n' where n': "n = Suc n'" by (cases n) auto
      have "\<forall>k<n'. m (drop k cs) = None"
      proof (intro allI impI)
        fix k assume "k < n'"
        then have "Suc k < n" using n' by simp
        with n(3) have "m (drop (Suc k) (c # cs)) = None" by blast
        then show "m (drop k cs) = None" by simp
      qed
      with n n' show ?R by auto
    next
      assume ?R
      then obtain n where n: "n \<le> length cs" "m (drop n cs) = Some g"
        "\<forall>k<n. m (drop k cs) = None" by blast
      have "\<forall>k<Suc n. m (drop k (c # cs)) = None"
      proof (intro allI impI)
        fix k assume k: "k < Suc n"
        show "m (drop k (c # cs)) = None"
        proof (cases k)
          case 0 with None show ?thesis by simp
        next
          case (Suc k') with k n(3) show ?thesis by simp
        qed
      qed
      with n show ?L by (intro exI[of _ "Suc n"]) simp
    qed
    with None Cons.IH show ?thesis by simp
  next
    case (Some a)
    have "(\<exists>n\<le>length (c # cs). m (drop n (c # cs)) = Some g \<and> (\<forall>k<n. m (drop k (c # cs)) = None))
        \<longleftrightarrow> a = g"
    proof
      assume "\<exists>n\<le>length (c # cs). m (drop n (c # cs)) = Some g \<and> (\<forall>k<n. m (drop k (c # cs)) = None)"
      then obtain n where n: "m (drop n (c # cs)) = Some g"
        "\<forall>k<n. m (drop k (c # cs)) = None" by blast
      have "n = 0"
      proof (rule ccontr)
        assume "n \<noteq> 0"
        then have "0 < n" by simp
        with n(2) have "m (drop 0 (c # cs)) = None" by blast
        with Some show False by simp
      qed
      with n Some show "a = g" by simp
    next
      assume "a = g"
      with Some show "\<exists>n\<le>length (c # cs). m (drop n (c # cs)) = Some g \<and> (\<forall>k<n. m (drop k (c # cs)) = None)"
        by (intro exI[of _ 0]) simp
    qed
    with Some show ?thesis by simp
  qed
qed

lemma re_search_None:
  "re_search m s = None \<longleftrightarrow> (\<forall>n\<le>length s. m (drop n s) = None)"
proof (induction s)
  case Nil
  then show ?case by simp
next
  case (Cons c cs)
  have "(\<forall>n\<le>length (c # cs). m (drop n (c # cs)) = None)
     \<longleftrightarrow> m (c # cs) = None \<and> (\<forall>n\<le>length cs. m (drop n cs) = None)"
  proof (intro iffI conjI allI impI)
    assume a: "\<forall>n\<le>length (c # cs). m (drop n (c # cs)) = None"
    from a have "m (drop 0 (c # cs)) = None" by blast
    then show "m (c # cs) = None" by simp
    fix n assume "n \<le> length cs"
    with a have "m (drop (Suc n) (c # cs)) = None" by (metis Suc_le_mono length_Cons)
    then show "m (drop n cs) = None" by simp
  next
    fix n assume a: "m (c # cs) = None \<and> (\<forall>n\<le>length cs. m (drop n cs) = None)"
      and n: "n \<le> length (c # cs)"
    show "m (drop n (c # cs)) = None"
    proof (cases n)
      case 0 with a show ?thesis by simp
    next
      case (Suc k) with a n show ?thesis by simp
    qed
  qed
  with Cons.IH show ?case by (simp split: option.splits)
qed


lemma re_search_offset:
  "re_search m s = Some g \<Longrightarrow> \<exists>n\<le>length s. m (drop n s) = Some g"
  by (auto simp: re_search_Some)

lemma extract_video_id_priority:
  "extract_video_id url =
     (case re_search pattern1 url of
        Some v \<Rightarrow> Some v
      | None \<Rightarrow> (case re_search pattern2 url of
                  Some v \<Rightarrow> Some v
                | None \<Rightarrow> re_search pattern3 url))"
  by (simp add: extract_video_id_def patterns_def split: option.splits)

lemma no_watch_no_match:
  assumes "\<not> (\<exists>n v. shape_at watch_family url n v)"
  shows "extract_video_id url = None"
proof -
  have w: "\<not> shape_at watch_family url n v" for n v using assms by blast
  have e: "\<not> shape_at embed_family url n v" for n v using w embed_is_watch by blast
  have s: "\<not> shape_at short_family url n v" for n v using w short_is_watch by blast
  have "re_search pattern1 url = None"
    unfolding re_search_None using w by (metis shape_at_watch not_Some_eq)
  moreover have "re_search pattern2 url = None"
    unfolding re_search_None using e by (metis shape_at_embed not_Some_eq)
  moreover have "re_search pattern3 url = None"
    unfolding re_search_None using s by (metis shape_at_short not_Some_eq)
  ultimately show ?thesis by (simp add: extract_video_id_priority)
qed

lemma watch_leftmost:
  assumes "shape_at watch_family url n0 v0"
  shows "\<exists>n v. extract_video_id url = Some v \<and> is_video_id v \<and> shape_at watch_family url n v \<and>
           (\<forall>k<n. \<forall>w. \<not> shape_at watch_family url k w)"
proof -
  from assms have "re_search pattern1 url \<noteq> None"
    unfolding re_search_None by (auto simp: shape_at_watch)
  then obtain v where v: "re_search pattern1 url = Some v" by blast
  then obtain n where n: "n \<le> length url" "pattern1 (drop n url) = Some v"
    "\<forall>k<n. pattern1 (drop k url) = None"
    unfolding re_search_Some by blast
  have "extract_video_id url = Some v" using v by (simp add: extract_video_id_priority)
  moreover have "is_video_id v" using n(2) by (simp add: pattern1_Some)
  moreover have "shape_at watch_family url n v" using n by (simp add: shape_at_watch)
  moreover have "\<forall>k<n. \<forall>w. \<not> shape_at watch_family url k w"
    using n(3) by (simp add: shape_at_watch)
  ultimately show ?thesis by blast
qed

text \<open>
  The result for every text: the segment after the leftmost \<^verbatim>\<open>v=\<close> or slash that
  eleven identifier characters follow, and \<open>None\<close> when the text has none. An
  \<^verbatim>\<open>embed/\<close> or \<^verbatim>\<open>youtu.be/\<close> shape ends in a slash before its identifier, so the
  first pattern finds whatever the second and third would: they never decide a result.
\<close>

lemma extract_video_id_first_pattern: "extract_video_id url = re_search pattern1 url"
proof (cases "re_search pattern1 url")
  case (Some v)
  then show ?thesis by (simp add: extract_video_id_priority)
next
  case None
  have "\<not> shape_at watch_family url n v" for n v
    using None unfolding re_search_None by (simp add: shape_at_watch)
  then have "extract_video_id url = None" by (intro no_watch_no_match) blast
  with None show ?thesis by simp
qed

lemma extract_video_id_leftmost:
  "extract_video_id url = Some v \<longleftrightarrow>
     (\<exists>n. shape_at watch_family url n v \<and> (\<forall>k<n. \<forall>w. \<not> shape_at watch_family url k w))"
proof
  assume "extract_video_id url = Some v"
  then have "re_search pattern1 url = Some v" by (simp add: extract_video_id_first_pattern)
  then obtain n where n: "n \<le> length url" "pattern1 (drop n url) = Some v"
    "\<forall>k<n. pattern1 (drop k url) = None"
    unfolding re_search_Some by blast
  have "shape_at watch_family url n v" using n(1,2) by (simp add: shape_at_watch)
  moreover have "\<forall>k<n. \<forall>w. \<not> shape_at watch_family url k w"
    using n(3) by (simp add: shape_at_watch)
  ultimately show "\<exists>n. shape_at watch_family url n v \<and> (\<forall>k<n. \<forall>w. \<not> shape_at watch_family url k w)"
    by blast
next
  assume "\<exists>n. shape_at watch_family url n v \<and> (\<forall>k<n. \<forall>w. \<not> shape_at watch_family url k w)"
  then obtain n where n: "shape_at watch_family url n v"
    and m: "\<forall>k<n. \<forall>w. \<not> shape_at watch_family url k w"
    by blast
  from n have a: "n \<le> length url" "pattern1 (drop n url) = Some v" by (simp_all add: shape_at_watch)
  have b: "\<forall>k<n. pattern1 (drop k url) = None"
  proof (intro allI impI)
    fix k assume k: "k < n"
    with a(1) have "k \<le> length url" by simp
    moreover from m k have "\<forall>w. \<not> shape_at watch_family url k w" by blast
    ultimately have "\<forall>w. pattern1 (drop k url) \<noteq> Some w" by (simp add: shape_at_watch)
    then show "pattern1 (drop k url) = None" by (cases "pattern1 (drop k url)") simp_all
  qed
  have "re_search pattern1 url = Some v"
    unfolding re_search_Some using a b by blast
  then show "extract_video_id url = Some v" by (simp add: extract_video_id_first_pattern)
qed


text \<open>
  Claim C10. For every text in which a slash is immediately followed by eleven characters
  of the class \<^verbatim>\<open>[0-9A-Za-z_-]\<close>, \<open>extract_video_id\<close> returns some
  eleven-character identifier and never \<open>None\<close>: the first pattern family accepts any
  such run, so a link that has nothing to do with the documented shapes yields an
  identifier as well.
\<close>

theorem slash_run_yields_identifier:
  assumes "url = pre @ ''/'' @ v @ post" and "length v = 11" and "list_all is_id_char v"
  shows "\<exists>w. extract_video_id url = Some w \<and> length w = 11 \<and> list_all is_id_char w"
proof -
  have "shape_at watch_family url (length pre) v"
    using assms by (simp add: shape_at_def watch_family_def is_video_id_def)
  from watch_leftmost [OF this] show ?thesis by (auto simp: is_video_id_def)
qed

theorem slash_run_yields_identifier_witness:
  "''https://example.com/articles/hello_world/'' = ''https://example.com/articles'' @ ''/'' @ ''hello_world'' @ ''/'' \<and>
   length ''hello_world'' = 11 \<and> list_all is_id_char ''hello_world'' \<and>
   (\<exists>w. extract_video_id ''https://example.com/articles/hello_world/'' = Some w \<and> length w = 11 \<and> list_all is_id_char w) \<and>
   extract_video_id ''https://example.com/articles/hello_world/'' = Some ''hello_world''"
proof -
  have a: "''https://example.com/articles/hello_world/'' = ''https://example.com/articles'' @ ''/'' @ ''hello_world'' @ ''/''"
    by simp
  have b: "length ''hello_world'' = 11" by simp
  have c: "list_all is_id_char ''hello_world''" by (simp add: is_id_char_def)
  have d: "extract_video_id ''https://example.com/articles/hello_world/'' = Some ''hello_world''"
    by code_simp
  from slash_run_yields_identifier [OF a b c] a b c d show ?thesis by blast
qed


section \<open>Durations\<close>

lemma group_unit_hit:
  "ds \<noteq> [] \<Longrightarrow> all_chars (is_digit U) ds \<Longrightarrow> char_width u = 1 \<Longrightarrow> \<not> ascii_digit u \<Longrightarrow>
     group_unit U u (ds @ u # r) = (Some ds, r)"
  by (simp add: group_unit_def digits_then_letter)

lemma group_unit_other:
  "all_chars (is_digit U) ds \<Longrightarrow> char_width u' = 1 \<Longrightarrow> \<not> ascii_digit u' \<Longrightarrow> u' \<noteq> u \<Longrightarrow>
     group_unit U u (ds @ u' # r) = (None, ds @ u' # r)"
  by (simp add: group_unit_def digits_then_letter)

lemma group_unit_Nil: "group_unit U u [] = (None, [])"
  by (simp add: group_unit_def)

lemma hms_duration_groups:
  assumes "hms_duration d h m s"
  shows "duration_groups U d = Some (h, m, s)"
proof -
  from assms have d: "d = ''PT'' @ component h ''H'' @ component m ''M'' @ component s ''S''"
    and ok: "digits_ok h" "digits_ok m" "digits_ok s"
    by (simp_all add: hms_duration_def)
  have gh: "group_unit U (CHR ''H'') (component h ''H'' @ component m ''M'' @ component s ''S'')
              = (h, component m ''M'' @ component s ''S'')"
    using ok
    by (cases h; cases m; cases s)
       (simp_all add: component_def digits_ok_def group_unit_hit group_unit_other group_unit_Nil
          ascii_digits_all_chars)
  have gm: "group_unit U (CHR ''M'') (component m ''M'' @ component s ''S'') = (m, component s ''S'')"
    using ok
    by (cases m; cases s)
       (simp_all add: component_def digits_ok_def group_unit_hit group_unit_other group_unit_Nil
          ascii_digits_all_chars)
  have gs: "group_unit U (CHR ''S'') (component s ''S'') = (s, [])"
    using ok
    by (cases s)
       (simp_all add: component_def digits_ok_def group_unit_hit [where r = "[]", simplified]
          group_unit_Nil ascii_digits_all_chars)
  show ?thesis
    unfolding duration_groups_def d by (simp add: gh gm gs)
qed

lemma part_component:
  "digits_ok g \<Longrightarrow> part g u = filter (\<lambda>p. p \<noteq> []) [component g u]"
  by (cases g) (simp_all add: part_def component_def digits_ok_def)

lemma join_nonempty:
  "ps \<noteq> [] \<Longrightarrow> last ps \<noteq> [] \<Longrightarrow> join sep ps \<noteq> []"
  by (induction sep ps rule: join.induct) simp_all

lemma last_join:
  "ps \<noteq> [] \<Longrightarrow> last ps \<noteq> [] \<Longrightarrow> last (join sep ps) = last (last ps)"
proof (induction sep ps rule: join.induct)
  case (3 sep p q ps)
  then have "join sep (q # ps) \<noteq> []" by (intro join_nonempty) simp_all
  with 3 show ?case by simp
qed simp_all

lemma part_shape:
  "p \<in> set (part g u) \<Longrightarrow> u \<noteq> [] \<Longrightarrow> p \<noteq> [] \<and> last p = last u"
  by (cases g) (auto simp: part_def split: if_splits)

lemma duration_groups_PT:
  "prefix ''PT'' d \<Longrightarrow> \<exists>h m s. duration_groups U d = Some (h, m, s)"
  by (simp add: duration_groups_def Let_def case_prod_beta)

lemma duration_groups_not_PT:
  "\<not> prefix ''PT'' d \<Longrightarrow> duration_groups U d = None"
  by (simp add: duration_groups_def)

lemma format_duration_Unknown:
  "format_duration U d = ''Unknown'' \<longleftrightarrow> \<not> prefix ''PT'' d"
proof (cases "prefix ''PT'' d")
  case False
  then show ?thesis by (simp add: format_duration_def duration_groups_not_PT)
next
  case True
  then obtain h m s where g: "duration_groups U d = Some (h, m, s)"
    using duration_groups_PT by blast
  define ps where "ps = part h ''h'' @ part m ''m'' @ part s ''s''"
  have "format_duration U d \<noteq> ''Unknown''"
  proof (cases "ps = []")
    case True
    then show ?thesis using g by (simp add: format_duration_def ps_def)
  next
    case False
    then have "last ps \<in> set ps" by simp
    then have l: "last ps \<noteq> [] \<and> last (last ps) \<in> set ''hms''"
      unfolding ps_def using part_shape by fastforce
    with False have "last (join '' '' ps) \<in> set ''hms''" by (simp add: last_join)
    then have "join '' '' ps \<noteq> ''Unknown''" by auto
    with False show ?thesis using g by (simp add: format_duration_def ps_def)
  qed
  with True show ?thesis by simp
qed

lemma format_duration_hms:
  assumes "hms_duration d h m s"
  shows "format_duration U d =
    (if h = None \<and> m = None \<and> s = None then ''0s''
     else join '' '' (filter (\<lambda>p. p \<noteq> []) [component h ''h'', component m ''m'', component s ''s'']))"
proof -
  from assms have ok: "digits_ok h" "digits_ok m" "digits_ok s"
    by (simp_all add: hms_duration_def)
  have ps: "part h ''h'' @ part m ''m'' @ part s ''s'' =
      filter (\<lambda>p. p \<noteq> []) [component h ''h'', component m ''m'', component s ''s'']"
    using ok by (simp add: part_component)
  have e: "part h ''h'' @ part m ''m'' @ part s ''s'' = [] \<longleftrightarrow> h = None \<and> m = None \<and> s = None"
    using ok by (cases h; cases m; cases s) (simp_all add: part_def digits_ok_def)
  have fd: "format_duration U d =
      (if part h ''h'' @ part m ''m'' @ part s ''s'' \<noteq> []
       then join '' '' (part h ''h'' @ part m ''m'' @ part s ''s'') else ''0s'')"
    using hms_duration_groups [OF assms, of U] by (simp add: format_duration_def Let_def)
  show ?thesis
  proof (cases "h = None \<and> m = None \<and> s = None")
    case True
    with e fd show ?thesis by simp
  next
    case False
    with e have "part h ''h'' @ part m ''m'' @ part s ''s'' \<noteq> []" by blast
    with fd have "format_duration U d = join '' '' (part h ''h'' @ part m ''m'' @ part s ''s'')"
      by simp
    then have "format_duration U d = join '' '' (filter (\<lambda>p. p \<noteq> [])
        [component h ''h'', component m ''m'', component s ''s''])"
      by (simp only: ps)
    with False show ?thesis by (simp only: if_False)
  qed
qed

lemma no_component_group:
  assumes "\<not> component_at_head U r" and "u \<in> set ''HMS''"
  shows "group_unit U u r = (None, r)"
proof (cases "drop (class_run (is_digit U) r) r")
  case Nil
  then show ?thesis by (simp add: group_unit_def Let_def)
next
  case (Cons c cs)
  with assms have "class_run (is_digit U) r = 0 \<or> c \<noteq> u"
    by (auto simp: component_at_head_def Let_def)
  with Cons show ?thesis by (auto simp: group_unit_def Let_def)
qed

lemma component_at_head_iff:
  "component_at_head U r \<longleftrightarrow>
     (\<exists>ds u rest. r = ds @ u # rest \<and> ds \<noteq> [] \<and> all_chars (is_digit U) ds \<and> u \<in> set ''HMS'')"
proof
  assume a: "component_at_head U r"
  define n where "n = class_run (is_digit U) r"
  from a have n0: "n \<noteq> 0" by (simp add: component_at_head_def Let_def n_def)
  from a obtain u rest where d: "drop n r = u # rest" and u: "u \<in> set ''HMS''"
    unfolding n_def by (auto simp: component_at_head_def Let_def split: list.splits)
  have "take n r @ drop n r = r" by (rule append_take_drop_id)
  then have r: "r = take n r @ u # rest" unfolding d by (rule sym)
  have "all_chars (is_digit U) (take n r)" unfolding n_def by (rule all_chars_run)
  moreover have "take n r \<noteq> []"
  proof -
    have "n \<le> length r" unfolding n_def by (rule class_run_le)
    with n0 show ?thesis by auto
  qed
  ultimately show "\<exists>ds u rest. r = ds @ u # rest \<and> ds \<noteq> [] \<and> all_chars (is_digit U) ds \<and> u \<in> set ''HMS''"
    using r u by blast
next
  assume "\<exists>ds u rest. r = ds @ u # rest \<and> ds \<noteq> [] \<and> all_chars (is_digit U) ds \<and> u \<in> set ''HMS''"
  then obtain ds u rest where r: "r = ds @ u # rest" and ds: "ds \<noteq> []" "all_chars (is_digit U) ds"
    and u: "u \<in> set ''HMS''"
    by blast
  from u have "char_width u = 1" "\<not> ascii_digit u" by auto
  with ds(2) have n: "class_run (is_digit U) r = length ds"
    unfolding r by (rule digits_then_letter)
  show "component_at_head U r"
    unfolding component_at_head_def Let_def n using ds(1) u by (simp add: r)
qed

text \<open>
  Claim C9. For every token that starts with \<^verbatim>\<open>PT\<close> and has no hours, minutes or
  seconds component after it that the expression can parse (decimal digits, of any script,
  followed by \<^verbatim>\<open>H\<close>, \<^verbatim>\<open>M\<close> or \<^verbatim>\<open>S\<close>), such as \<^verbatim>\<open>PT\<close> and \<^verbatim>\<open>PTabc\<close>,
  \<open>format_duration\<close> returns \<^verbatim>\<open>0s\<close> and not \<^verbatim>\<open>Unknown\<close>: the expression matches
  the prefix with its three groups empty.
\<close>

theorem format_duration_bare_prefix:
  assumes "prefix ''PT'' d" and "\<not> component_at_head U (drop 2 d)"
  shows "format_duration U d = ''0s'' \<and> duration_groups U d = Some (None, None, None)"
proof -
  have "duration_groups U d = Some (None, None, None)"
    using assms by (simp add: duration_groups_def no_component_group)
  then show ?thesis by (simp add: format_duration_def part_def)
qed

theorem format_duration_bare_prefix_witness:
  "\<forall>U. prefix ''PT'' ''PTabc'' \<and> \<not> component_at_head U (drop 2 ''PTabc'') \<and>
     format_duration U ''PTabc'' = ''0s'' \<and>
     prefix ''PT'' ''PT'' \<and> \<not> component_at_head U (drop 2 ''PT'') \<and>
     format_duration U ''PT'' = ''0s''"
proof
  fix U
  have a: "prefix ''PT'' ''PTabc''" by simp
  have b: "\<not> component_at_head U (drop 2 ''PTabc'')" by code_simp
  have c: "prefix ''PT'' ''PT''" by simp
  have d: "\<not> component_at_head U (drop 2 ''PT'')" by code_simp
  from format_duration_bare_prefix [OF a b] format_duration_bare_prefix [OF c d] a b c d
  show "prefix ''PT'' ''PTabc'' \<and> \<not> component_at_head U (drop 2 ''PTabc'') \<and>
     format_duration U ''PTabc'' = ''0s'' \<and>
     prefix ''PT'' ''PT'' \<and> \<not> component_at_head U (drop 2 ''PT'') \<and>
     format_duration U ''PT'' = ''0s''"
    by (intro conjI) simp_all
qed

text \<open>
  Claim C2, as amended. \<open>format_duration\<close> maps \<^verbatim>\<open>PT1H23M45S\<close> to
  \<^verbatim>\<open>1h 23m 45s\<close>, \<^verbatim>\<open>PT0S\<close> to \<^verbatim>\<open>0s\<close> and the empty token to \<^verbatim>\<open>Unknown\<close>.
  The result is \<^verbatim>\<open>Unknown\<close> exactly for the tokens that do not start with
  \<^verbatim>\<open>PT\<close>. When the whole token is a duration of hours, minutes and seconds
  components, the output lists the components present, hours then minutes then seconds,
  separated by one blank, each with its digits as written and its unit letter in lower
  case; a token with no component at all yields \<^verbatim>\<open>0s\<close>.
\<close>

theorem format_duration_amended:
  "format_duration U ''PT1H23M45S'' = ''1h 23m 45s'' \<and>
   format_duration U ''PT0S'' = ''0s'' \<and>
   format_duration U '''' = ''Unknown'' \<and>
   (format_duration U d = ''Unknown'' \<longleftrightarrow> \<not> prefix ''PT'' d) \<and>
   (hms_duration d h m s \<longrightarrow>
      format_duration U d =
        (if h = None \<and> m = None \<and> s = None then ''0s''
         else join '' '' (filter (\<lambda>p. p \<noteq> [])
                [component h ''h'', component m ''m'', component s ''s''])))"
proof (intro conjI impI)
  show "format_duration U ''PT1H23M45S'' = ''1h 23m 45s''" by code_simp
  show "format_duration U ''PT0S'' = ''0s''" by code_simp
  show "format_duration U '''' = ''Unknown''" by code_simp
  show "format_duration U d = ''Unknown'' \<longleftrightarrow> \<not> prefix ''PT'' d"
    by (rule format_duration_Unknown)
  assume "hms_duration d h m s"
  then show "format_duration U d =
        (if h = None \<and> m = None \<and> s = None then ''0s''
         else join '' '' (filter (\<lambda>p. p \<noteq> [])
                [component h ''h'', component m ''m'', component s ''s'']))"
    by (rule format_duration_hms)
qed

theorem format_duration_amended_witness:
  "\<forall>U. hms_duration ''PT2H5S'' (Some ''2'') None (Some ''5'') \<and>
     format_duration U ''PT2H5S'' = ''2h 5s'' \<and>
     format_duration U ''P1DT2H'' = ''Unknown'' \<and> \<not> prefix ''PT'' ''P1DT2H''"
proof
  fix U
  have a: "hms_duration ''PT2H5S'' (Some ''2'') None (Some ''5'')"
    by (simp add: hms_duration_def digits_ok_def component_def ascii_digit_def)
  have b: "\<not> prefix ''PT'' ''P1DT2H''" by simp
  from format_duration_amended [of U "''PT2H5S''" "Some ''2''" None "Some ''5''"] a
  have c: "format_duration U ''PT2H5S'' = ''2h 5s''" by (simp add: component_def)
  from format_duration_amended [of U "''P1DT2H''"] b
  have d: "format_duration U ''P1DT2H'' = ''Unknown''" by simp
  from a b c d show "hms_duration ''PT2H5S'' (Some ''2'') None (Some ''5'') \<and>
     format_duration U ''PT2H5S'' = ''2h 5s'' \<and>
     format_duration U ''P1DT2H'' = ''Unknown'' \<and> \<not> prefix ''PT'' ''P1DT2H''"
    by simp
qed

text \<open>
  Claim C2 as stated fails: \<^verbatim>\<open>PTabc\<close> is no duration of hours, minutes and seconds,
  yet the result is \<^verbatim>\<open>0s\<close> and not \<^verbatim>\<open>Unknown\<close>; and the fully zero duration
  \<^verbatim>\<open>PT0M\<close> yields \<^verbatim>\<open>0m\<close>, not \<^verbatim>\<open>0s\<close>. Neither result depends on the tables
  of the interpreter.
\<close>

theorem format_duration_unparseable_counterexample:
  "\<not> (\<exists>h m s. hms_duration ''PTabc'' h m s) \<and>
   (\<forall>U. format_duration U ''PTabc'' = ''0s'') \<and>
   hms_duration ''PT0M'' None (Some ''0'') None \<and>
   (\<forall>U. format_duration U ''PT0M'' = ''0m'')"
proof -
  have "\<not> hms_duration ''PTabc'' h m s" for h m s
  proof
    fix U :: unicode_tables
    assume a: "hms_duration ''PTabc'' h m s"
    then have "duration_groups U ''PTabc'' = Some (h, m, s)"
      by (rule hms_duration_groups)
    moreover have "duration_groups U ''PTabc'' = Some (None, None, None)" by code_simp
    ultimately have "h = None" "m = None" "s = None" by simp_all
    with a show False by (simp add: hms_duration_def component_def)
  qed
  moreover have "format_duration U ''PTabc'' = ''0s''" for U by code_simp
  moreover have "hms_duration ''PT0M'' None (Some ''0'') None"
    by (simp add: hms_duration_def digits_ok_def component_def ascii_digit_def)
  moreover have "format_duration U ''PT0M'' = ''0m''" for U by code_simp
  ultimately show ?thesis by blast
qed


section \<open>View counts\<close>

lemma round_half_even_close:
  assumes "0 < b"
  shows "2 * \<bar>round_half_even a b * b - a\<bar> \<le> b"
proof -
  define q r where "q = a div b" and "r = a mod b"
  have a: "a = q * b + r" by (simp add: q_def r_def)
  have r: "0 \<le> r" "r < b" using assms by (simp_all add: r_def)
  have "round_half_even a b = q \<and> 2 * r \<le> b \<or> round_half_even a b = q + 1 \<and> b \<le> 2 * r"
    by (auto simp: round_half_even_def Let_def q_def r_def)
  then show ?thesis
  proof
    assume "round_half_even a b = q \<and> 2 * r \<le> b"
    then show ?thesis using a r by simp
  next
    assume h: "round_half_even a b = q + 1 \<and> b \<le> 2 * r"
    then have "round_half_even a b * b - a = b - r" using a by (simp add: algebra_simps)
    then show ?thesis using h r by simp
  qed
qed

lemma round_half_even_nonneg:
  "0 < b \<Longrightarrow> 0 \<le> a \<Longrightarrow> 0 \<le> round_half_even a b"
  by (auto simp: round_half_even_def Let_def pos_imp_zdiv_nonneg_iff)

lemma true_div_three_halves:
  "true_div 1500000 1000000 = Inr \<lparr>significand = 6755399441055744, exponent = - 52\<rparr> \<and>
   float_value \<lparr>significand = 6755399441055744, exponent = - 52\<rparr> = 3 / 2"
proof
  show "true_div 1500000 1000000 = Inr \<lparr>significand = 6755399441055744, exponent = - 52\<rparr>"
    by code_simp
  show "float_value \<lparr>significand = 6755399441055744, exponent = - 52\<rparr> = 3 / 2"
    by (simp add: float_value_def)
qed

lemma bit_length_le: "n < 2 ^ k \<Longrightarrow> bit_length n \<le> k"
proof (induction k arbitrary: n)
  case 0
  then show ?case by (simp add: bit_length.simps)
next
  case (Suc k)
  show ?case
  proof (cases "n \<le> 0")
    case True
    then show ?thesis by (simp add: bit_length.simps)
  next
    case False
    from Suc.prems have "n div 2 < 2 ^ k" by simp
    then have "bit_length (n div 2) \<le> k" by (rule Suc.IH)
    with False show ?thesis by (simp add: bit_length.simps [of n])
  qed
qed

text \<open>Two roundings in a row stay within half a tenth.\<close>

lemma tenths_close:
  fixes a m n B P :: int
  assumes B: "0 < B" "even B" and P: "5 * B < P"
    and m: "2 * \<bar>m * (10 * B) - a * P\<bar> \<le> 10 * B"
    and n: "2 * \<bar>n * P - 10 * m\<bar> \<le> P"
  shows "2 * \<bar>n * B - a\<bar> \<le> B"
proof -
  define D where "D = n * B - a"
  have "P * D = B * (n * P - 10 * m) + (m * (10 * B) - a * P)"
    by (simp add: D_def algebra_simps)
  then have "\<bar>P * D\<bar> \<le> \<bar>B * (n * P - 10 * m)\<bar> + \<bar>m * (10 * B) - a * P\<bar>"
    by (simp only: abs_triangle_ineq)
  also have "\<bar>B * (n * P - 10 * m)\<bar> = B * \<bar>n * P - 10 * m\<bar>"
    using B by (simp add: abs_mult)
  finally have "2 * \<bar>P * D\<bar> \<le> B * (2 * \<bar>n * P - 10 * m\<bar>) + 2 * \<bar>m * (10 * B) - a * P\<bar>"
    by simp
  also have "\<dots> \<le> B * P + 10 * B"
    using n m B by (intro add_mono mult_left_mono) simp_all
  also have "\<dots> < B * P + 2 * P" using P by simp
  finally have "2 * \<bar>P * D\<bar> < P * (B + 2)" by (simp add: algebra_simps)
  moreover have "\<bar>P * D\<bar> = P * \<bar>D\<bar>" using P B by (simp add: abs_mult)
  ultimately have "P * (2 * \<bar>D\<bar>) < P * (B + 2)" by simp
  then have "2 * \<bar>D\<bar> < B + 2" using P B by (simp add: mult_less_cancel_left_pos)
  moreover have "even (2 * \<bar>D\<bar>)" by simp
  ultimately have "2 * \<bar>D\<bar> \<le> B" using B(2) by presburger
  then show ?thesis by (simp add: D_def)
qed

lemma str_int_digit: "0 \<le> k \<Longrightarrow> k < 10 \<Longrightarrow> str_int k = [digit_char (nat k)]"
  by (simp add: str_int_def digits_of.simps [of k])

lemma true_div_format:
  fixes a b B :: int
  assumes B: "0 < B" "even B" "5 * B < 2 ^ 19" and b: "b = 10 * B"
    and a: "b \<le> a" "a < b * 2 ^ 34"
  shows "\<exists>x n. true_div a b = Inr x \<and> format_1f x = one_decimal n \<and> 0 \<le> n \<and>
           2 * \<bar>n * B - a\<bar> \<le> B"
proof -
  have bpos: "0 < b" using B b by simp
  have apos: "0 \<le> a" using a bpos by simp
  define L where "L = bit_length (a div b)"
  have "b * (a div b) + a mod b = a" by simp
  moreover have "0 \<le> a mod b" using bpos by simp
  ultimately have "b * (a div b) < b * 2 ^ 34" using a by linarith
  then have "a div b < 2 ^ 34" using bpos by (simp only: mult_less_cancel_left_pos)
  then have L: "L \<le> 34" unfolding L_def by (rule bit_length_le)
  define s where "s = 53 - L"
  define P :: int where "P = 2 ^ s"
  have s: "19 \<le> s" "s \<le> 53" using L by (simp_all add: s_def)
  have e: "int L - 53 = - int s" "nat (int s) = s" using L by (simp_all add: s_def)
  have "(2::int) ^ 19 \<le> 2 ^ s" using s by (intro power_increasing) simp_all
  then have P19: "2 ^ 19 \<le> P" by (simp add: P_def)
  have "(2::int) ^ s \<le> 2 ^ 53" using s by (intro power_increasing) simp_all
  then have P53: "P \<le> 2 ^ 53" by (simp add: P_def)
  have Ppos: "0 < P" by (simp add: P_def)
  define m where "m = round_half_even (a * P) b"
  define n where "n = round_half_even (10 * m) P"
  have mc: "2 * \<bar>m * b - a * P\<bar> \<le> b" unfolding m_def using bpos by (rule round_half_even_close)
  have m0: "0 \<le> m" unfolding m_def using bpos apos Ppos by (intro round_half_even_nonneg) simp_all
  have nc: "2 * \<bar>n * P - 10 * m\<bar> \<le> P" unfolding n_def using Ppos by (rule round_half_even_close)
  have n0: "0 \<le> n" unfolding n_def using Ppos m0 by (intro round_half_even_nonneg) simp_all
  have "a * P \<le> (b * 2 ^ 34) * 2 ^ 53"
    using a P53 apos Ppos bpos by (intro mult_mono) simp_all
  moreover have "b < 2 ^ 20" using B b by simp
  ultimately have aP: "a * P < 2 ^ 20 * 2 ^ 34 * 2 ^ 53"
    by (smt (verit) mult_strict_right_mono zero_less_numeral zero_less_power)
  have "m \<le> m * b" using m0 bpos by (simp add: mult_le_cancel_left1)
  moreover have "m * b - a * P \<le> \<bar>m * b - a * P\<bar>" by (rule abs_ge_self)
  then have "2 * (m * b) \<le> 2 * (a * P) + b" using mc by simp
  ultimately have "2 * m \<le> 2 * (a * P) + b" by linarith
  with aP \<open>b < 2 ^ 20\<close> have msmall: "m < 2 ^ 1024" by simp
  have td: "true_div a b = Inr \<lparr>significand = m, exponent = - int s\<rparr>"
    using msmall s
    by (simp add: true_div_def Let_def L_def [symmetric] e m_def P_def)
  have "10 \<le> n \<or> n < 10" by linarith
  have md: "0 \<le> n mod 10" "n mod 10 < 10" by simp_all
  have f1: "format_1f \<lparr>significand = m, exponent = - int s\<rparr> = one_decimal n"
    using s md by (simp add: format_1f_def Let_def one_decimal_def n_def P_def str_int_digit)
  have "2 * \<bar>m * (10 * B) - a * P\<bar> \<le> 10 * B" using mc b by simp
  moreover have "5 * B < P" using B P19 by linarith
  ultimately have "2 * \<bar>n * B - a\<bar> \<le> B" using B nc by (intro tenths_close [of B P m a n])
  with td f1 n0 show ?thesis by blast
qed

lemma tenths_real:
  fixes n c B :: int
  assumes "0 < B" and "2 * \<bar>n * B - c\<bar> \<le> B"
  shows "\<bar>real_of_int n / 10 - real_of_int c / real_of_int (10 * B)\<bar> \<le> 1 / 20"
proof -
  have "real_of_int (2 * \<bar>n * B - c\<bar>) \<le> real_of_int B" using assms(2) by (simp only: of_int_le_iff)
  then have "2 * \<bar>real_of_int n * real_of_int B - real_of_int c\<bar> \<le> real_of_int B" by simp
  moreover have "real_of_int n / 10 - real_of_int c / real_of_int (10 * B) =
      (real_of_int n * real_of_int B - real_of_int c) / (10 * real_of_int B)"
    using assms(1) by (simp add: field_simps)
  ultimately show ?thesis using assms(1) by (simp add: abs_divide field_simps)
qed

lemma format_views_millions:
  assumes "1000000 \<le> c" and "c < 10 ^ 16"
  shows "\<exists>n. format_views c = Inr (one_decimal n @ ''M'') \<and> 0 \<le> n \<and>
           \<bar>real_of_int n / 10 - real_of_int c / 1000000\<bar> \<le> 1 / 20"
proof -
  have "\<exists>x n. true_div c 1000000 = Inr x \<and> format_1f x = one_decimal n \<and> 0 \<le> n \<and>
           2 * \<bar>n * 100000 - c\<bar> \<le> 100000"
    using assms by (intro true_div_format) simp_all
  then obtain x n where x: "true_div c 1000000 = Inr x" "format_1f x = one_decimal n" "0 \<le> n"
    "2 * \<bar>n * 100000 - c\<bar> \<le> 100000" by blast
  have "\<bar>real_of_int n / 10 - real_of_int c / real_of_int (10 * 100000)\<bar> \<le> 1 / 20"
    using x(4) by (intro tenths_real) simp_all
  then have "\<bar>real_of_int n / 10 - real_of_int c / 1000000\<bar> \<le> 1 / 20" by simp
  moreover have "format_views c = Inr (one_decimal n @ ''M'')"
    using assms x by (simp add: format_views_def)
  ultimately show ?thesis using x(3) by blast
qed

lemma format_views_thousands:
  assumes "1000 \<le> c" and "c < 1000000"
  shows "\<exists>n. format_views c = Inr (one_decimal n @ ''K'') \<and> 0 \<le> n \<and>
           \<bar>real_of_int n / 10 - real_of_int c / 1000\<bar> \<le> 1 / 20"
proof -
  have "\<exists>x n. true_div c 1000 = Inr x \<and> format_1f x = one_decimal n \<and> 0 \<le> n \<and>
           2 * \<bar>n * 100 - c\<bar> \<le> 100"
    using assms by (intro true_div_format) simp_all
  then obtain x n where x: "true_div c 1000 = Inr x" "format_1f x = one_decimal n" "0 \<le> n"
    "2 * \<bar>n * 100 - c\<bar> \<le> 100" by blast
  have "\<bar>real_of_int n / 10 - real_of_int c / real_of_int (10 * 100)\<bar> \<le> 1 / 20"
    using x(4) by (intro tenths_real) simp_all
  then have "\<bar>real_of_int n / 10 - real_of_int c / 1000\<bar> \<le> 1 / 20" by simp
  moreover have "format_views c = Inr (one_decimal n @ ''K'')"
    using assms x by (simp add: format_views_def)
  ultimately show ?thesis using x(3) by blast
qed

text \<open>
  Claim C4, as amended. For every integer count from 0 up to (not including) \<open>10 ^ 16\<close>:
  from 1,000,000 on, \<open>format_views\<close> returns a decimal numeral with exactly one fractional
  digit followed by \<^verbatim>\<open>M\<close>, and that numeral is the count divided by 1,000,000 rounded
  to a nearest tenth (it differs from the exact quotient by at most 0.05); from 1,000 up
  to 999,999 the same holds with 1,000 and \<^verbatim>\<open>K\<close>; below 1,000 the result is the
  plain decimal string of the count. In particular 1500000 gives \<^verbatim>\<open>1.5M\<close>, 5000 gives
  \<^verbatim>\<open>5.0K\<close>, 500 gives \<^verbatim>\<open>500\<close>, 1000 gives \<^verbatim>\<open>1.0K\<close>, 1000000 gives
  \<^verbatim>\<open>1.0M\<close> and 0 gives \<^verbatim>\<open>0\<close>.
\<close>

theorem format_views_amended:
  "(0 \<le> c \<and> c < 10 ^ 16 \<longrightarrow>
      (1000000 \<le> c \<longrightarrow>
         (\<exists>n. format_views c = Inr (one_decimal n @ ''M'') \<and> 0 \<le> n \<and>
              \<bar>real_of_int n / 10 - real_of_int c / 1000000\<bar> \<le> 1 / 20)) \<and>
      (1000 \<le> c \<and> c < 1000000 \<longrightarrow>
         (\<exists>n. format_views c = Inr (one_decimal n @ ''K'') \<and> 0 \<le> n \<and>
              \<bar>real_of_int n / 10 - real_of_int c / 1000\<bar> \<le> 1 / 20)) \<and>
      (c < 1000 \<longrightarrow> format_views c = Inr (str_int c))) \<and>
   format_views 1500000 = Inr ''1.5M'' \<and>
   format_views 5000 = Inr ''5.0K'' \<and>
   format_views 500 = Inr ''500'' \<and>
   format_views 1000 = Inr ''1.0K'' \<and>
   format_views 1000000 = Inr ''1.0M'' \<and>
   format_views 0 = Inr ''0''"
proof (intro conjI impI)
  assume "0 \<le> c \<and> c < 10 ^ 16" and "1000000 \<le> c"
  then show "\<exists>n. format_views c = Inr (one_decimal n @ ''M'') \<and> 0 \<le> n \<and>
              \<bar>real_of_int n / 10 - real_of_int c / 1000000\<bar> \<le> 1 / 20"
    by (intro format_views_millions) simp_all
next
  assume "1000 \<le> c \<and> c < 1000000"
  then show "\<exists>n. format_views c = Inr (one_decimal n @ ''K'') \<and> 0 \<le> n \<and>
              \<bar>real_of_int n / 10 - real_of_int c / 1000\<bar> \<le> 1 / 20"
    by (intro format_views_thousands) simp_all
next
  assume "c < 1000"
  then show "format_views c = Inr (str_int c)" by (simp add: format_views_def)
next
  show "format_views 1500000 = Inr ''1.5M''" by code_simp
  show "format_views 5000 = Inr ''5.0K''" by code_simp
  show "format_views 500 = Inr ''500''" by code_simp
  show "format_views 1000 = Inr ''1.0K''" by code_simp
  show "format_views 1000000 = Inr ''1.0M''" by code_simp
  show "format_views 0 = Inr ''0''" by code_simp
qed

theorem format_views_amended_witness:
  "(0::int) \<le> 1234567 \<and> (1234567::int) < 10 ^ 16 \<and> (1000000::int) \<le> 1234567 \<and>
   (\<exists>n. format_views 1234567 = Inr (one_decimal n @ ''M'') \<and> 0 \<le> n \<and>
        \<bar>real_of_int n / 10 - real_of_int 1234567 / 1000000\<bar> \<le> 1 / 20) \<and>
   format_views 1234567 = Inr ''1.2M'' \<and>
   (\<exists>n. format_views 999949 = Inr (one_decimal n @ ''K'') \<and> 0 \<le> n \<and>
        \<bar>real_of_int n / 10 - real_of_int 999949 / 1000\<bar> \<le> 1 / 20) \<and>
   format_views 999949 = Inr ''999.9K'' \<and>
   format_views 999 = Inr (str_int 999) \<and> str_int 999 = ''999''"
proof -
  have a: "(0::int) \<le> 1234567 \<and> (1234567::int) < 10 ^ 16" "(1000000::int) \<le> 1234567" by simp_all
  have b: "(0::int) \<le> 999949 \<and> (999949::int) < 10 ^ 16" "(1000::int) \<le> 999949 \<and> (999949::int) < 1000000"
    by simp_all
  have c: "(0::int) \<le> 999 \<and> (999::int) < 10 ^ 16" "(999::int) < 1000" by simp_all
  have d: "format_views 1234567 = Inr ''1.2M''" by code_simp
  have e: "format_views 999949 = Inr ''999.9K''" by code_simp
  have f: "str_int 999 = ''999''" by code_simp
  from format_views_amended [of 1234567] a
  have g: "\<exists>n. format_views 1234567 = Inr (one_decimal n @ ''M'') \<and> 0 \<le> n \<and>
        \<bar>real_of_int n / 10 - real_of_int 1234567 / 1000000\<bar> \<le> 1 / 20" by blast
  from format_views_amended [of 999949] b
  have h: "\<exists>n. format_views 999949 = Inr (one_decimal n @ ''K'') \<and> 0 \<le> n \<and>
        \<bar>real_of_int n / 10 - real_of_int 999949 / 1000\<bar> \<le> 1 / 20" by blast
  from format_views_amended [of 999] c
  have i: "format_views 999 = Inr (str_int 999)" by blast
  from a d e f g h i show ?thesis by blast
qed

text \<open>
  Claim C4 as stated fails for large counts. At \<open>1000000 * 2 ^ 1024\<close> the division
  raises \<^verbatim>\<open>OverflowError\<close> and nothing is returned; at 9007199254740993000000 the
  exact quotient is 9007199254740993, which no binary64 float represents, and the numeral
  printed is a whole unit below it.
\<close>

theorem format_views_large_counterexample:
  "format_views (1000000 * 2 ^ 1024) = Inl OverflowError \<and>
   (9007199254740993000000 :: int) = 1000000 * 9007199254740993 \<and>
   format_views 9007199254740993000000 = Inr ''9007199254740992.0M''"
proof (intro conjI)
  show "format_views (1000000 * 2 ^ 1024) = Inl OverflowError" by code_simp
  show "(9007199254740993000000 :: int) = 1000000 * 9007199254740993" by simp
  show "format_views 9007199254740993000000 = Inr ''9007199254740992.0M''" by code_simp
qed


section \<open>The classifier\<close>

lemma contains_iff: "contains needle hay \<longleftrightarrow> (\<exists>pre post. hay = pre @ needle @ post)"
proof (induction hay)
  case Nil
  then show ?case by auto
next
  case (Cons c cs)
  show ?case
  proof
    assume "contains needle (c # cs)"
    then consider "prefix needle (c # cs)" | "contains needle cs" by auto
    then show "\<exists>pre post. c # cs = pre @ needle @ post"
    proof cases
      case 1
      then obtain post where "c # cs = needle @ post" by (auto simp: prefix_def)
      then have "c # cs = [] @ needle @ post" by simp
      then show ?thesis by blast
    next
      case 2
      with Cons.IH obtain pre post where "cs = pre @ needle @ post" by blast
      then have "c # cs = (c # pre) @ needle @ post" by simp
      then show ?thesis by blast
    qed
  next
    assume "\<exists>pre post. c # cs = pre @ needle @ post"
    then obtain pre post where e: "c # cs = pre @ needle @ post" by blast
    show "contains needle (c # cs)"
    proof (cases pre)
      case Nil
      with e have "prefix needle (c # cs)" by (simp add: prefix_def)
      then show ?thesis by simp
    next
      case (Cons p ps)
      with e have "cs = ps @ needle @ post" by simp
      with Cons.IH have "contains needle cs" by blast
      then show ?thesis by simp
    qed
  qed
qed

lemma contains_ci_iff:
  assumes "lower needle = needle"
  shows "contains_ci needle txt \<longleftrightarrow> contains needle (lower txt)"
proof
  assume "contains_ci needle txt"
  then obtain pre mid post where "txt = pre @ mid @ post" "lower mid = lower needle"
    by (auto simp: contains_ci_def)
  then have "lower txt = lower pre @ needle @ lower post"
    using assms by (simp add: lower_def)
  then show "contains needle (lower txt)" unfolding contains_iff by blast
next
  assume "contains needle (lower txt)"
  then obtain xs zs where "map lower_char txt = xs @ needle @ zs"
    unfolding contains_iff lower_def by blast
  then have "\<exists>us vs. txt = us @ vs \<and> xs = map lower_char us \<and> needle @ zs = map lower_char vs"
    by (simp only: map_eq_append_conv)
  then obtain pre r where p: "txt = pre @ r" "needle @ zs = map lower_char r" by blast
  from p(2) have "\<exists>us vs. r = us @ vs \<and> needle = map lower_char us \<and> zs = map lower_char vs"
    by (simp only: append_eq_map_conv)
  then obtain mid post where m: "r = mid @ post" "needle = map lower_char mid" by blast
  with p assms have "txt = pre @ mid @ post \<and> lower mid = lower needle"
    by (simp add: lower_def)
  then show "contains_ci needle txt" unfolding contains_ci_def by blast
qed

lemma needles_lower:
  "lower ''low'' = ''low''" "lower ''high'' = ''high''"
  "lower ''factual'' = ''factual''" "lower ''questionable'' = ''questionable''"
  by (simp_all add: lower_def lower_char_def)

lemma reaction_category_rules:
  "reaction_category b f =
     (if contains_ci ''low'' b \<and> contains_ci ''factual'' f then low_factual
      else if contains_ci ''high'' b \<or> contains_ci ''questionable'' f then high_questionable
      else moderate_mixed)"
  by (simp only: reaction_category_def Let_def contains_ci_iff needles_lower)

lemma random_choice_in: "xs \<noteq> [] \<Longrightarrow> random_choice r xs \<in> set xs"
  by (simp add: random_choice_def)

lemma reactions_nonempty: "reactions c \<noteq> []"
  by (cases c) simp_all

lemma get_detective_reaction_in:
  "get_detective_reaction r b f \<in> set (reactions (reaction_category b f))"
  unfolding get_detective_reaction_def
  using reactions_nonempty by (rule random_choice_in)

text \<open>
  Claim C1. For every pair of bias and factuality strings the classifier evaluates three
  rules in order, the first that applies deciding: the bias text contains \<^verbatim>\<open>low\<close> and
  the factuality text contains \<^verbatim>\<open>factual\<close> (case ignored) gives \<open>low_factual\<close>;
  else the bias text contains \<^verbatim>\<open>high\<close> or the factuality text contains
  \<^verbatim>\<open>questionable\<close> gives \<open>high_questionable\<close>; else \<open>moderate_mixed\<close>. In
  particular a bias text that contains \<^verbatim>\<open>high\<close>, the first rule not applying, gives
  \<open>high_questionable\<close> whatever the factuality is. The reaction returned is one of the
  three of the category.
\<close>

theorem classifier_three_rules:
  "reaction_category b f =
     (if contains_ci ''low'' b \<and> contains_ci ''factual'' f then low_factual
      else if contains_ci ''high'' b \<or> contains_ci ''questionable'' f then high_questionable
      else moderate_mixed) \<and>
   (contains_ci ''high'' b \<and> \<not> (contains_ci ''low'' b \<and> contains_ci ''factual'' f) \<longrightarrow>
      reaction_category b f = high_questionable) \<and>
   (contains_ci ''high'' b \<and> \<not> contains_ci ''low'' b \<longrightarrow>
      (\<forall>g. reaction_category b g = high_questionable)) \<and>
   get_detective_reaction r b f \<in> set (reactions (reaction_category b f))"
proof (intro conjI)
  show "reaction_category b f =
     (if contains_ci ''low'' b \<and> contains_ci ''factual'' f then low_factual
      else if contains_ci ''high'' b \<or> contains_ci ''questionable'' f then high_questionable
      else moderate_mixed)"
    by (rule reaction_category_rules)
  show "contains_ci ''high'' b \<and> \<not> (contains_ci ''low'' b \<and> contains_ci ''factual'' f) \<longrightarrow>
      reaction_category b f = high_questionable"
    by (simp add: reaction_category_rules)
  show "contains_ci ''high'' b \<and> \<not> contains_ci ''low'' b \<longrightarrow>
      (\<forall>g. reaction_category b g = high_questionable)"
    by (simp add: reaction_category_rules)
  show "get_detective_reaction r b f \<in> set (reactions (reaction_category b f))"
    by (rule get_detective_reaction_in)
qed

theorem classifier_three_rules_witness:
  "contains_ci ''high'' ''High'' \<and> \<not> contains_ci ''low'' ''High'' \<and>
   reaction_category ''High'' ''Factual'' = high_questionable \<and>
   (\<forall>g. reaction_category ''High'' g = high_questionable) \<and>
   contains_ci ''low'' ''LOW'' \<and> contains_ci ''factual'' ''Factual'' \<and>
   reaction_category ''LOW'' ''Factual'' = low_factual \<and>
   reaction_category ''Moderate'' ''Mixed'' = moderate_mixed"
proof -
  have a: "contains_ci ''high'' ''High''"
    by (simp add: contains_ci_iff needles_lower) (simp add: lower_def lower_char_def)
  have b: "\<not> contains_ci ''low'' ''High''"
    by (simp add: contains_ci_iff needles_lower) (simp add: lower_def lower_char_def)
  have c: "contains_ci ''low'' ''LOW''"
    by (simp add: contains_ci_iff needles_lower) (simp add: lower_def lower_char_def)
  have d: "contains_ci ''factual'' ''Factual''"
    by (simp add: contains_ci_iff needles_lower) (simp add: lower_def lower_char_def)
  have e: "reaction_category ''Moderate'' ''Mixed'' = moderate_mixed" by code_simp
  from classifier_three_rules [of "''High''" "''Factual''" 0] a b
  have f: "reaction_category ''High'' ''Factual'' = high_questionable"
    and g: "\<forall>g. reaction_category ''High'' g = high_questionable" by simp_all
  from classifier_three_rules [of "''LOW''" "''Factual''" 0] c d
  have h: "reaction_category ''LOW'' ''Factual'' = low_factual" by simp
  from a b c d e f g h show ?thesis by blast
qed


section \<open>The labelled fields of the assessment\<close>












section \<open>The pipeline\<close>

lemma extract_video_id_is_id:
  assumes "extract_video_id url = Some v"
  shows "is_video_id v"
proof (cases "re_search pattern1 url")
  case (Some w)
  with assms have "re_search pattern1 url = Some v" by (simp add: extract_video_id_priority)
  then have "\<exists>n\<le>length url. pattern1 (drop n url) = Some v" by (rule re_search_offset)
  then show ?thesis by (auto simp: pattern1_Some)
next
  case None
  show ?thesis
  proof (cases "re_search pattern2 url")
    case (Some w)
    with None assms have "re_search pattern2 url = Some v" by (simp add: extract_video_id_priority)
    then have "\<exists>n\<le>length url. pattern2 (drop n url) = Some v" by (rule re_search_offset)
    then show ?thesis by (auto simp: pattern2_def match_after_Some)
  next
    case n2: None
    with None assms have "re_search pattern3 url = Some v" by (simp add: extract_video_id_priority)
    then have "\<exists>n\<le>length url. pattern3 (drop n url) = Some v" by (rule re_search_offset)
    then show ?thesis by (auto simp: pattern3_def match_after_Some)
  qed
qed

lemma video_id_nonempty: "is_video_id v \<Longrightarrow> v \<noteq> []"
  by (auto simp: is_video_id_def)

lemma summarize_youtube_found:
  assumes "extract_video_id url = Some video_id"
  shows "summarize_youtube U sv rnd url =
     ReplyText (random_choice (loading_draw rnd) loading_messages) # VideosList video_id #
       (case videos_list sv video_id of
          Inl e \<Rightarrow> [EditText (fetch_error_text e)]
        | Inr info \<Rightarrow>
            (case get_default (items info) [] of
               [] \<Rightarrow> [EditText video_not_found_text]
             | video_data # _ \<Rightarrow>
                 (case video_details U video_data of
                    Inl err \<Rightarrow> [EditText (fetch_error_text (str_error err))]
                  | Inr d \<Rightarrow> EditText running_text # analyse U sv rnd video_id d)))"
proof -
  have "video_id \<noteq> []" using assms extract_video_id_is_id video_id_nonempty by blast
  with assms show ?thesis by (simp add: summarize_youtube_def)
qed

text \<open>
  Claim C6. For every request whose link yields an identifier while the catalogue returns
  no item for it, the pipeline sends the loading message, asks the catalogue, and edits the
  status message to a text that begins with the \<^verbatim>\<open>Video Not Found\<close> marker; that edit
  is the last thing it does, and no call to the generative model is made.
\<close>

theorem video_not_found_ends_pipeline:
  assumes "extract_video_id url = Some video_id"
    and "videos_list sv video_id = Inr info"
    and "items info = None \<or> items info = Some []"
  shows "summarize_youtube U sv rnd url =
           [ReplyText (random_choice (loading_draw rnd) loading_messages),
            VideosList video_id, EditText video_not_found_text] \<and>
         prefix (cross_mark @ '' *Video Not Found:*'') video_not_found_text \<and>
         last (summarize_youtube U sv rnd url) = EditText video_not_found_text \<and>
         (\<forall>p. GenerateContent p \<notin> set (summarize_youtube U sv rnd url))"
proof -
  have g: "get_default (items info) [] = []"
    using assms(3) by (auto simp: get_default_def)
  have s: "summarize_youtube U sv rnd url =
           [ReplyText (random_choice (loading_draw rnd) loading_messages),
            VideosList video_id, EditText video_not_found_text]"
    by (simp add: summarize_youtube_found [OF assms(1)] assms(2) g)
  have p: "prefix (cross_mark @ '' *Video Not Found:*'') video_not_found_text"
    by (simp add: video_not_found_text_def)
  from s p show ?thesis by simp
qed

theorem video_not_found_ends_pipeline_witness:
  "\<forall>U. extract_video_id ''https://youtu.be/dQw4w9WgXcQ'' = Some ''dQw4w9WgXcQ'' \<and>
     videos_list empty_catalogue_services ''dQw4w9WgXcQ'' = Inr \<lparr>items = Some []\<rparr> \<and>
     summarize_youtube U empty_catalogue_services first_draws ''https://youtu.be/dQw4w9WgXcQ'' =
       [ReplyText (random_choice (loading_draw first_draws) loading_messages),
        VideosList ''dQw4w9WgXcQ'', EditText video_not_found_text] \<and>
     last (summarize_youtube U empty_catalogue_services first_draws ''https://youtu.be/dQw4w9WgXcQ'') =
       EditText video_not_found_text"
proof
  fix U
  have a: "extract_video_id ''https://youtu.be/dQw4w9WgXcQ'' = Some ''dQw4w9WgXcQ''"
    by code_simp
  have b: "videos_list empty_catalogue_services ''dQw4w9WgXcQ'' = Inr \<lparr>items = Some []\<rparr>"
    by (simp add: empty_catalogue_services_def)
  have c: "items \<lparr>items = Some []\<rparr> = None \<or> items \<lparr>items = Some []\<rparr> = Some ([] :: video_item list)"
    by simp
  from video_not_found_ends_pipeline [OF a b c, of U first_draws] a b
  show "extract_video_id ''https://youtu.be/dQw4w9WgXcQ'' = Some ''dQw4w9WgXcQ'' \<and>
     videos_list empty_catalogue_services ''dQw4w9WgXcQ'' = Inr \<lparr>items = Some []\<rparr> \<and>
     summarize_youtube U empty_catalogue_services first_draws ''https://youtu.be/dQw4w9WgXcQ'' =
       [ReplyText (random_choice (loading_draw first_draws) loading_messages),
        VideosList ''dQw4w9WgXcQ'', EditText video_not_found_text] \<and>
     last (summarize_youtube U empty_catalogue_services first_draws ''https://youtu.be/dQw4w9WgXcQ'') =
       EditText video_not_found_text"
    by blast
qed








lemma summarize_youtube_length: "2 \<le> length (summarize_youtube U sv rnd url)"
  by (simp add: summarize_youtube_def analyse_def Let_def
      split: option.splits sum.splits list.splits)







lemma contains_sublist: "contains needle hay \<longleftrightarrow> sublist needle hay"
  by (simp add: contains_iff sublist_def)

lemma random_not_link_in:
  "random_choice r not_link_reactions \<in> set not_link_reactions"
  by (rule random_choice_in) (simp add: not_link_reactions_def)

lemma single_reply_not_pipeline: "[ReplyText r] \<noteq> summarize_youtube U sv rnd url"
proof
  assume "[ReplyText r] = summarize_youtube U sv rnd url"
  then have "length (summarize_youtube U sv rnd url) = 1" by (metis length_Cons list.size(3) One_nat_def)
  with summarize_youtube_length [of U sv rnd url] show False by simp
qed

text \<open>
  For an update that is a new inbound message the dispatch is as specified:
  \<open>handle_message\<close> runs the analysis pipeline on the text if and only if the text
  contains \<^verbatim>\<open>youtube.com\<close> or \<^verbatim>\<open>youtu.be\<close>; otherwise it sends one reply, one of
  the three fixed texts, and nothing of the pipeline happens.
\<close>

lemma handle_message_new_message:
  assumes "message upd = Some m" and "msg_text (effective_message upd) = Some t"
  shows "(handle_message U sv rnd upd = Inr (summarize_youtube U sv rnd t) \<longleftrightarrow>
            sublist ''youtube.com'' t \<or> sublist ''youtu.be'' t) \<and>
         (\<not> (sublist ''youtube.com'' t \<or> sublist ''youtu.be'' t) \<longrightarrow>
            handle_message U sv rnd upd =
              Inr [ReplyText (random_choice (not_link_draw rnd) not_link_reactions)] \<and>
            random_choice (not_link_draw rnd) not_link_reactions \<in> set not_link_reactions \<and>
            length not_link_reactions = 3 \<and>
            (\<forall>url. handle_message U sv rnd upd \<noteq> Inr (summarize_youtube U sv rnd url)))"
proof (cases "sublist ''youtube.com'' t \<or> sublist ''youtu.be'' t")
  case True
  then have "t \<noteq> []" by auto
  with True assms have "handle_message U sv rnd upd = Inr (summarize_youtube U sv rnd t)"
    by (simp add: handle_message_def Let_def contains_sublist)
  with True show ?thesis by simp
next
  case False
  with assms have h: "handle_message U sv rnd upd =
      Inr [ReplyText (random_choice (not_link_draw rnd) not_link_reactions)]"
    by (simp add: handle_message_def Let_def contains_sublist)
  have n: "\<forall>url. handle_message U sv rnd upd \<noteq> Inr (summarize_youtube U sv rnd url)"
    unfolding h using single_reply_not_pipeline by simp
  have l: "length not_link_reactions = 3" by (simp add: not_link_reactions_def)
  from False h n l random_not_link_in show ?thesis by simp
qed

text \<open>
  For an update whose \<^verbatim>\<open>message\<close> attribute is \<^verbatim>\<open>None\<close> (an edited message, a
  channel post) the pipeline is entered on the same condition, since both the text and the
  pipeline's replies go through \<^verbatim>\<open>effective_message\<close>; a text without the two
  substrings ends in \<^verbatim>\<open>AttributeError\<close> and no reply.
\<close>

lemma handle_message_no_message:
  assumes "message upd = None" and "msg_text (effective_message upd) = Some t"
  shows "handle_message U sv rnd upd =
           (if sublist ''youtube.com'' t \<or> sublist ''youtu.be'' t
            then Inr (summarize_youtube U sv rnd t) else Inl AttributeError)"
proof (cases "sublist ''youtube.com'' t \<or> sublist ''youtu.be'' t")
  case True
  then have "t \<noteq> []" by auto
  with True assms show ?thesis by (simp add: handle_message_def Let_def contains_sublist)
next
  case False
  with assms show ?thesis by (simp add: handle_message_def Let_def contains_sublist)
qed

text \<open>
  Claim C8 says that every inbound text message without \<^verbatim>\<open>youtube.com\<close> and
  \<^verbatim>\<open>youtu.be\<close> is answered with one of the three fixed texts. The program does so for
  a new message only. The edit of an earlier message to \<^verbatim>\<open>hello there\<close> reaches
  \<open>handle_message\<close> as an update whose \<^verbatim>\<open>message\<close> attribute is \<^verbatim>\<open>None\<close>: the
  text, read through \<^verbatim>\<open>effective_message\<close>, has neither substring, and the reply,
  attempted through \<^verbatim>\<open>update.message\<close>, raises \<^verbatim>\<open>AttributeError\<close>; no message is
  sent, whatever the services and the random draws. The same text as a new message gets its
  reply.
\<close>

theorem handle_message_edited_text_unanswered:
  "\<not> contains ''youtube.com'' ''hello there'' \<and> \<not> contains ''youtu.be'' ''hello there'' \<and>
   (\<forall>U sv rnd. handle_message U sv rnd
      \<lparr>message = None, effective_message = \<lparr>msg_text = Some ''hello there''\<rparr>\<rparr> =
        Inl AttributeError) \<and>
   (\<forall>U sv rnd. handle_message U sv rnd
      \<lparr>message = Some \<lparr>msg_text = Some ''hello there''\<rparr>,
       effective_message = \<lparr>msg_text = Some ''hello there''\<rparr>\<rparr> =
        Inr [ReplyText (random_choice (not_link_draw rnd) not_link_reactions)])"
proof (intro conjI allI)
  show "\<not> contains ''youtube.com'' ''hello there''" by code_simp
  show "\<not> contains ''youtu.be'' ''hello there''" by code_simp
next
  fix U sv rnd
  show "handle_message U sv rnd
      \<lparr>message = None, effective_message = \<lparr>msg_text = Some ''hello there''\<rparr>\<rparr> =
        Inl AttributeError"
    by (simp add: handle_message_def)
next
  fix U sv rnd
  show "handle_message U sv rnd
      \<lparr>message = Some \<lparr>msg_text = Some ''hello there''\<rparr>,
       effective_message = \<lparr>msg_text = Some ''hello there''\<rparr>\<rparr> =
        Inr [ReplyText (random_choice (not_link_draw rnd) not_link_reactions)]"
    by (simp add: handle_message_def)
qed

end
